theory Spec2Isabelle
  imports Main "HOL-Library.AList"
begin

section \<open>Strings and the regular expressions of the error classifier\<close>

text \<open>
  A JavaScript string is modelled as a \<^typ>\<open>string\<close>: the development covers strings whose
  code units are below 256. The regular expressions of \<open>mcp-tool-adapter.ts\<close> are built from
  literal characters and \<open>.*\<close> only, all with the flag \<open>i\<close>; they are modelled by a list of
  atoms. Under the flag \<open>i\<close> two code units match when their canonical (upper case) forms
  agree; for the patterns used here all letters are ASCII, and ECMAScript never folds a
  code unit above 127 onto an ASCII one.
\<close>

definition canonicalize :: "char \<Rightarrow> char" where
  "canonicalize c =
     (let n = (of_char c :: nat) in if 97 \<le> n \<and> n \<le> 122 then char_of (n - 32) else c)"

text \<open>Without the flag \<open>s\<close> the dot does not match a line terminator.\<close>

definition lineTerminator :: "char \<Rightarrow> bool" where
  "lineTerminator c = (c = CHR 0x0A \<or> c = CHR 0x0D)"

datatype atom = Ch char | DotStar

text \<open>\<open>matchHere p s\<close>: the pattern matches a prefix of \<open>s\<close>.\<close>

fun matchHere :: "atom list \<Rightarrow> string \<Rightarrow> bool" where
  "matchHere [] s = True"
| "matchHere (Ch p # ps) [] = False"
| "matchHere (Ch p # ps) (c # cs) = (canonicalize p = canonicalize c \<and> matchHere ps cs)"
| "matchHere (DotStar # ps) [] = matchHere ps []"
| "matchHere (DotStar # ps) (c # cs) =
     (matchHere ps (c # cs) \<or> (\<not> lineTerminator c \<and> matchHere (DotStar # ps) cs))"

text \<open>\<open>RegExp.prototype.test\<close> of an unanchored pattern: a match may start at any index.\<close>

fun test :: "atom list \<Rightarrow> string \<Rightarrow> bool" where
  "test p [] = matchHere p []"
| "test p (c # cs) = (matchHere p (c # cs) \<or> test p cs)"

definition lit :: "string \<Rightarrow> atom list" where
  "lit w = map Ch w"

definition retryablePatterns :: "atom list list" where
  "retryablePatterns =
     [ lit ''timeout'',
       lit ''connection'' @ DotStar # lit ''refused'',
       lit ''ECONNRESET'',
       lit ''ECONNREFUSED'',
       lit ''ETIMEDOUT'',
       lit ''network'',
       lit ''unavailable'' ]"

text \<open>
  \<open>isRetryableError(error?: string)\<close>: \<open>None\<close> is \<open>undefined\<close>; \<open>!error\<close> holds for
  \<open>undefined\<close> and for the empty string.
\<close>

definition isRetryableError :: "string option \<Rightarrow> bool" where
  "isRetryableError error =
     (case error of
        None \<Rightarrow> False
      | Some e \<Rightarrow> if e = [] then False else list_ex (\<lambda>pattern. test pattern e) retryablePatterns)"

text \<open>
  The classifier in the words of the specification: a message mentions a word when the word
  occurs in it, letter case ignored.
\<close>

definition fold_case :: "string \<Rightarrow> string" where
  "fold_case s = map canonicalize s"

definition mentions :: "string \<Rightarrow> string \<Rightarrow> bool" where
  "mentions w m = (\<exists>pre post. fold_case m = pre @ fold_case w @ post)"

definition mentions_then :: "string \<Rightarrow> string \<Rightarrow> string \<Rightarrow> bool" where
  "mentions_then w1 w2 m =
     (\<exists>pre mid post. fold_case m = pre @ fold_case w1 @ mid @ fold_case w2 @ post
        \<and> list_all (\<lambda>c. \<not> lineTerminator c) mid)"

section \<open>Data model of the adapter\<close>

text \<open>Payloads (\<open>unknown\<close> in the source) are opaque; they are carried as text.\<close>

type_synonym payload = string

record MCPServerConfig =
  name :: string
  command :: string
  args :: "string list"
  env :: "(string \<times> string) list option"

record MCPToolResult =
  success :: bool
  data :: "payload option"
  error :: "string option"

record MCPToolDefinition =
  tool_name :: string
  tool_description :: "string option"
  tool_inputSchema :: "payload option"

text \<open>
  \<open>ConnectionState\<close>. The client and its transport are created together and owned by one
  entry; \<open>client\<close> is the identity of the pair (the index of the handshake that opened it).
  \<open>lastActivity\<close> is a reading of the clock.
\<close>

record ConnectionState =
  client :: nat
  config :: MCPServerConfig
  connected :: bool
  lastActivity :: nat
  retryCount :: nat

text \<open>
  \<open>RetryConfig\<close>. The four fields are JavaScript numbers, which nothing validates. The
  model covers the numbers that are integers, negative ones included; an integer stands for
  the double of that value. Sums and comparisons of the loop counter are exact below
  \<open>2^53\<close>; a product is rounded to the nearest double, as \<open>jsMultiply\<close> below has it.
  Fractions, \<open>NaN\<close> and the infinities are outside the model.
\<close>

record RetryConfig =
  maxRetries :: int
  initialDelayMs :: int
  maxDelayMs :: int
  backoffMultiplier :: int




text \<open>
  The world outside the adapter. Every interaction with it is the \<open>k\<close>-th of its kind, and
  the environment fixes its outcome: the \<open>k\<close>-th \<open>client.connect(transport)\<close> resolves
  (\<open>None\<close>) or rejects with an \<open>Error\<close> carrying a message; the \<open>k\<close>-th
  \<open>client.callTool\<close> resolves with a payload (\<open>Inr\<close>) or rejects with a message (\<open>Inl\<close>);
  likewise \<open>client.listTools\<close>; the \<open>k\<close>-th \<open>new Date()\<close> reads a time. A rejection of
  \<open>client.close()\<close> is caught and ignored by the source, so its outcome is not recorded.
  Any behaviour of the servers along one run is such a family of outcomes.
\<close>

record Transport =
  handshake :: "nat \<Rightarrow> string option"
  toolResponse :: "nat \<Rightarrow> string + payload"
  listResponse :: "nat \<Rightarrow> string + MCPToolDefinition list"
  dateNow :: "nat \<Rightarrow> nat"

text \<open>
  The adapter: the \<open>connections\<close> map, in insertion order as a JavaScript \<open>Map\<close> keeps it,
  and the count of the interactions with the world made so far, with the durations slept.
\<close>

record MCPToolAdapter =
  connections :: "(string \<times> ConnectionState) list"
  handshakes :: nat
  toolCalls :: nat
  listCalls :: nat
  closeCalls :: nat
  dateReads :: nat
  sleeps :: "int list"

definition newAdapter :: MCPToolAdapter where
  "newAdapter =
     \<lparr>connections = [], handshakes = 0, toolCalls = 0, listCalls = 0, closeCalls = 0,
      dateReads = 0, sleeps = []\<rparr>"

section \<open>Operations of the adapter\<close>

text \<open>
  The product of two doubles is the exact product rounded to the nearest double, ties to
  the even significand. For integers: a value of at most 53 bits is a double; a longer one
  keeps its 53 leading bits, rounded. (Overflow to infinity, beyond \<open>2^1023\<close>, is not
  modelled.)
\<close>

function bitLength :: "int \<Rightarrow> nat" where
  "bitLength a = (if a \<le> 0 then 0 else Suc (bitLength (a div 2)))"
  by pat_completeness auto
termination
  by (relation "measure nat") auto

definition roundToDouble :: "int \<Rightarrow> int" where
  "roundToDouble x =
     (let a = \<bar>x\<bar>; e = bitLength a - 53 in
      if e = 0 then x
      else
        let q = a div 2 ^ e; r = a mod 2 ^ e; half = 2 ^ (e - 1);
            q' = (if half < r \<or> (r = half \<and> odd q) then q + 1 else q)
        in sgn x * (q' * 2 ^ e))"

definition jsMultiply :: "int \<Rightarrow> int \<Rightarrow> int" where
  "jsMultiply a b = roundToDouble (a * b)"

text \<open>
  JavaScript's conversion of an integer to a string, as a template literal makes it
  (decimal digits, for an integer below \<open>10^21\<close> in magnitude).
\<close>

fun decimal :: "nat \<Rightarrow> string" where
  "decimal n =
     (if n < 10 then [char_of (48 + n)] else decimal (n div 10) @ [char_of (48 + n mod 10)])"

definition numberToString :: "int \<Rightarrow> string" where
  "numberToString n = (if n < 0 then ''-'' @ decimal (nat (- n)) else decimal (nat n))"

text \<open>The number a string of decimal digits denotes.\<close>

definition digitsValue :: "string \<Rightarrow> nat" where
  "digitsValue ds = foldl (\<lambda>a c. 10 * a + (of_char c - 48)) 0 ds"

definition sleep :: "int \<Rightarrow> MCPToolAdapter \<Rightarrow> MCPToolAdapter" where
  "sleep ms s = s\<lparr>sleeps := sleeps s @ [ms]\<rparr>"

definition disconnect :: "string \<Rightarrow> MCPToolAdapter \<Rightarrow> MCPToolAdapter" where
  "disconnect serverName s =
     (case map_of (connections s) serverName of
        None \<Rightarrow> s
      | Some connection \<Rightarrow>
          s\<lparr>closeCalls := closeCalls s + 1,
            connections := AList.delete serverName (connections s)\<rparr>)"

text \<open>Lines 120 to 145 of \<open>connect\<close>: a new client, the handshake, the new entry.\<close>

definition establish ::
  "Transport \<Rightarrow> MCPServerConfig \<Rightarrow> MCPToolAdapter \<Rightarrow> (string + unit) \<times> MCPToolAdapter" where
  "establish T cfg s =
     (let k = handshakes s; s1 = s\<lparr>handshakes := k + 1\<rparr> in
      case handshake T k of
        Some message \<Rightarrow> (Inl message, s1)
      | None \<Rightarrow>
          (Inr (),
           s1\<lparr>dateReads := dateReads s1 + 1,
              connections :=
                AList.update (name cfg)
                  \<lparr>client = k, config = cfg, connected = True,
                   lastActivity = dateNow T (dateReads s1), retryCount = 0\<rparr>
                  (connections s1)\<rparr>))"

text \<open>\<open>connect\<close> throws (\<open>Inl\<close>) what the handshake throws.\<close>

definition connect ::
  "Transport \<Rightarrow> MCPServerConfig \<Rightarrow> MCPToolAdapter \<Rightarrow> (string + unit) \<times> MCPToolAdapter" where
  "connect T cfg s =
     (case map_of (connections s) (name cfg) of
        Some existing \<Rightarrow>
          if connected existing then (Inr (), s)
          else establish T cfg (disconnect (name cfg) s)
      | None \<Rightarrow> establish T cfg s)"

text \<open>
  The \<open>for\<close> loop of \<open>connectWithRetry\<close>, with its variables \<open>attempt\<close>, \<open>delay\<close> and
  \<open>lastError\<close>; after the loop the method throws.
\<close>

function connectWithRetry_loop ::
  "Transport \<Rightarrow> RetryConfig \<Rightarrow> MCPServerConfig \<Rightarrow> int \<Rightarrow> int \<Rightarrow> string option \<Rightarrow>
   MCPToolAdapter \<Rightarrow> (string + unit) \<times> MCPToolAdapter" where
  "connectWithRetry_loop T rc cfg attempt delay lastError s =
     (if attempt \<le> maxRetries rc then
        (case connect T cfg s of
           (Inr u, s1) \<Rightarrow> (Inr (), s1)
         | (Inl message, s1) \<Rightarrow>
             if attempt < maxRetries rc then
               connectWithRetry_loop T rc cfg (attempt + 1)
                 (min (jsMultiply delay (backoffMultiplier rc)) (maxDelayMs rc)) (Some message)
                 (sleep delay s1)
             else connectWithRetry_loop T rc cfg (attempt + 1) delay (Some message) s1)
      else
        (Inl (''Failed to connect to '' @ name cfg @ '' after ''
              @ numberToString (maxRetries rc + 1)
              @ '' attempts: '' @ (case lastError of None \<Rightarrow> ''undefined'' | Some m \<Rightarrow> m)),
         s))"
  by pat_completeness auto
termination
  by (relation "measure (\<lambda>(T, rc, cfg, attempt, delay, lastError, s).
                  nat (maxRetries rc + 1 - attempt))")
    auto

definition connectWithRetry ::
  "Transport \<Rightarrow> RetryConfig \<Rightarrow> MCPServerConfig \<Rightarrow> MCPToolAdapter \<Rightarrow>
   (string + unit) \<times> MCPToolAdapter" where
  "connectWithRetry T rc cfg s = connectWithRetry_loop T rc cfg 0 (initialDelayMs rc) None s"

definition failure :: "string \<Rightarrow> MCPToolResult" where
  "failure message = \<lparr>success = False, data = None, error = Some message\<rparr>"

definition callTool ::
  "Transport \<Rightarrow> string \<Rightarrow> string \<Rightarrow> payload \<Rightarrow> MCPToolAdapter \<Rightarrow>
   MCPToolResult \<times> MCPToolAdapter" where
  "callTool T serverName toolName arguments s =
     (case map_of (connections s) serverName of
        None \<Rightarrow> (failure (''Server '' @ serverName @ '' not connected''), s)
      | Some connection \<Rightarrow>
          if \<not> connected connection
          then (failure (''Server '' @ serverName @ '' is disconnected''), s)
          else
            let s1 = s\<lparr>dateReads := dateReads s + 1,
                       connections :=
                         AList.map_entry serverName
                           (\<lambda>c. c\<lparr>lastActivity := dateNow T (dateReads s)\<rparr>) (connections s)\<rparr>;
                k = toolCalls s1;
                s2 = s1\<lparr>toolCalls := k + 1\<rparr>
            in case toolResponse T k of
                 Inr result \<Rightarrow>
                   (\<lparr>success = True, data = Some result, error = None\<rparr>,
                    s2\<lparr>connections :=
                         AList.map_entry serverName (\<lambda>c. c\<lparr>retryCount := 0\<rparr>) (connections s2)\<rparr>)
               | Inl message \<Rightarrow> (failure message, s2))"

text \<open>
  Lines 232 to 240 of \<open>callToolWithRetry\<close>: a reconnection is tried when the entry is
  present and marked disconnected; what \<open>connect\<close> throws is ignored.
\<close>

definition reconnect :: "Transport \<Rightarrow> string \<Rightarrow> MCPToolAdapter \<Rightarrow> MCPToolAdapter" where
  "reconnect T serverName s =
     (case map_of (connections s) serverName of
        Some connection \<Rightarrow>
          if \<not> connected connection then snd (connect T (config connection) s) else s
      | None \<Rightarrow> s)"

text \<open>
  The \<open>for\<close> loop of \<open>callToolWithRetry\<close>; after the loop the method returns the
  aggregated failure.
\<close>

function callToolWithRetry_loop ::
  "Transport \<Rightarrow> RetryConfig \<Rightarrow> string \<Rightarrow> string \<Rightarrow> payload \<Rightarrow> int \<Rightarrow> int \<Rightarrow> string option \<Rightarrow>
   MCPToolAdapter \<Rightarrow> MCPToolResult \<times> MCPToolAdapter" where
  "callToolWithRetry_loop T rc serverName toolName arguments attempt delay lastError s =
     (if attempt \<le> maxRetries rc then
        (case callTool T serverName toolName arguments s of
           (result, s1) \<Rightarrow>
             if success result then (result, s1)
             else if \<not> isRetryableError (error result) then (result, s1)
             else
               let s2 = reconnect T serverName s1
               in if attempt < maxRetries rc then
                    callToolWithRetry_loop T rc serverName toolName arguments (attempt + 1)
                      (min (jsMultiply delay (backoffMultiplier rc)) (maxDelayMs rc))
                      (error result) (sleep delay s2)
                  else
                    callToolWithRetry_loop T rc serverName toolName arguments (attempt + 1)
                      delay (error result) s2)
      else
        (failure (''Failed after '' @ numberToString (maxRetries rc + 1) @ '' attempts: ''
                  @ (case lastError of None \<Rightarrow> ''undefined'' | Some m \<Rightarrow> m)),
         s))"
  by pat_completeness auto
termination
  by (relation "measure (\<lambda>(T, rc, serverName, toolName, arguments, attempt, delay, lastError, s).
                  nat (maxRetries rc + 1 - attempt))")
    auto

definition callToolWithRetry ::
  "Transport \<Rightarrow> RetryConfig \<Rightarrow> string \<Rightarrow> string \<Rightarrow> payload \<Rightarrow> MCPToolAdapter \<Rightarrow>
   MCPToolResult \<times> MCPToolAdapter" where
  "callToolWithRetry T rc serverName toolName arguments s =
     callToolWithRetry_loop T rc serverName toolName arguments 0 (initialDelayMs rc) None s"

definition listTools ::
  "Transport \<Rightarrow> string \<Rightarrow> MCPToolAdapter \<Rightarrow> MCPToolDefinition list \<times> MCPToolAdapter" where
  "listTools T serverName s =
     (case map_of (connections s) serverName of
        None \<Rightarrow> ([], s)
      | Some connection \<Rightarrow>
          if \<not> connected connection then ([], s)
          else
            let s1 = s\<lparr>dateReads := dateReads s + 1,
                       connections :=
                         AList.map_entry serverName
                           (\<lambda>c. c\<lparr>lastActivity := dateNow T (dateReads s)\<rparr>) (connections s)\<rparr>;
                k = listCalls s1;
                s2 = s1\<lparr>listCalls := k + 1\<rparr>
            in case listResponse T k of
                 Inr tools \<Rightarrow>
                   (map (\<lambda>tool. \<lparr>tool_name = tool_name tool,
                                  tool_description = tool_description tool,
                                  tool_inputSchema = tool_inputSchema tool\<rparr>) tools,
                    s2)
               | Inl message \<Rightarrow> ([], s2))"

text \<open>\<open>listAllTools\<close> visits the keys of the map in order.\<close>

fun listAllTools_loop ::
  "Transport \<Rightarrow> string list \<Rightarrow> (string \<times> MCPToolDefinition list) list \<Rightarrow> MCPToolAdapter \<Rightarrow>
   (string \<times> MCPToolDefinition list) list \<times> MCPToolAdapter" where
  "listAllTools_loop T [] allTools s = (allTools, s)"
| "listAllTools_loop T (serverName # rest) allTools s =
     (case listTools T serverName s of
        (tools, s1) \<Rightarrow> listAllTools_loop T rest (AList.update serverName tools allTools) s1)"

definition listAllTools ::
  "Transport \<Rightarrow> MCPToolAdapter \<Rightarrow> (string \<times> MCPToolDefinition list) list \<times> MCPToolAdapter" where
  "listAllTools T s = listAllTools_loop T (map fst (connections s)) [] s"

text \<open>
  \<open>disconnectAll\<close> starts one \<open>disconnect\<close> for each key; the disconnects touch different
  entries, and their effects are applied here in the order of the keys.
\<close>

definition disconnectAll :: "MCPToolAdapter \<Rightarrow> MCPToolAdapter" where
  "disconnectAll s = fold disconnect (map fst (connections s)) s"

definition isConnected :: "MCPToolAdapter \<Rightarrow> string \<Rightarrow> bool" where
  "isConnected s serverName =
     (case map_of (connections s) serverName of
        Some connection \<Rightarrow> connected connection
      | None \<Rightarrow> False)"

definition getConnectedServers :: "MCPToolAdapter \<Rightarrow> string list" where
  "getConnectedServers s = map fst (filter (\<lambda>(n, state). connected state) (connections s))"

definition getConnectionStats :: "MCPToolAdapter \<Rightarrow> (string \<times> bool \<times> nat \<times> nat) list" where
  "getConnectionStats s =
     map (\<lambda>(n, state). (n, connected state, lastActivity state, retryCount state)) (connections s)"

text \<open>The calls a user of the class can make, and a sequence of them from a new adapter.\<close>

datatype call =
    Connect MCPServerConfig
  | ConnectWithRetry MCPServerConfig
  | CallTool string string payload
  | CallToolWithRetry string string payload
  | ListTools string
  | ListAllTools
  | Disconnect string
  | DisconnectAll
  | IsConnected string
  | GetConnectedServers
  | GetConnectionStats

fun exec :: "Transport \<Rightarrow> RetryConfig \<Rightarrow> call \<Rightarrow> MCPToolAdapter \<Rightarrow> MCPToolAdapter" where
  "exec T rc (Connect cfg) s = snd (connect T cfg s)"
| "exec T rc (ConnectWithRetry cfg) s = snd (connectWithRetry T rc cfg s)"
| "exec T rc (CallTool serverName toolName arguments) s =
     snd (callTool T serverName toolName arguments s)"
| "exec T rc (CallToolWithRetry serverName toolName arguments) s =
     snd (callToolWithRetry T rc serverName toolName arguments s)"
| "exec T rc (ListTools serverName) s = snd (listTools T serverName s)"
| "exec T rc ListAllTools s = snd (listAllTools T s)"
| "exec T rc (Disconnect serverName) s = disconnect serverName s"
| "exec T rc DisconnectAll s = disconnectAll s"
| "exec T rc (IsConnected serverName) s = s"
| "exec T rc GetConnectedServers s = s"
| "exec T rc GetConnectionStats s = s"

definition run :: "Transport \<Rightarrow> RetryConfig \<Rightarrow> call list \<Rightarrow> MCPToolAdapter" where
  "run T rc calls = fold (exec T rc) calls newAdapter"


text \<open>The delays as the loops compute them: each from the one before.\<close>

fun backoff :: "RetryConfig \<Rightarrow> nat \<Rightarrow> int \<Rightarrow> int list" where
  "backoff rc 0 delay = []"
| "backoff rc (Suc n) delay =
     delay # backoff rc n (min (jsMultiply delay (backoffMultiplier rc)) (maxDelayMs rc))"

section \<open>The configuration loader\<close>

text \<open>
  The regular expression \<open>/\$\{([^}]+)\}/\<close> at the start of a string: \<open>${\<close>, then the
  longest run of characters other than \<open>}\<close>, which must not be empty and must be followed
  by \<open>}\<close>. The result is the name captured and the text after the match.
\<close>

definition matchPlaceholder :: "string \<Rightarrow> (string \<times> string) option" where
  "matchPlaceholder s =
     (case s of
        c1 # c2 # t \<Rightarrow>
          if c1 = CHR ''$'' \<and> c2 = CHR ''{'' then
            (let varName = takeWhile (\<lambda>c. c \<noteq> CHR ''}'') t;
                 r = dropWhile (\<lambda>c. c \<noteq> CHR ''}'') t
             in if varName \<noteq> [] \<and> r \<noteq> [] then Some (varName, tl r) else None)
          else None
      | _ \<Rightarrow> None)"

text \<open>
  \<open>value.replace(/\$\{([^}]+)\}/g, f)\<close>: the matches are found from left to right, each
  search starting after the previous match; what \<open>f\<close> returns is not searched again.
\<close>

function replacePlaceholders :: "(string \<Rightarrow> string) \<Rightarrow> string \<Rightarrow> string" where
  "replacePlaceholders f [] = []"
| "replacePlaceholders f (c # cs) =
     (case matchPlaceholder (c # cs) of
        Some (varName, rest) \<Rightarrow> f varName @ replacePlaceholders f rest
      | None \<Rightarrow> c # replacePlaceholders f cs)"
  by pat_completeness auto
termination
proof (relation "measure (\<lambda>(f, s). length s)")
  show "wf (measure (\<lambda>(f, s). length s))" by simp
next
  fix f :: "string \<Rightarrow> string" and c cs x2 varName rest
  assume "matchPlaceholder (c # cs) = Some x2" and "(varName, rest) = x2"
  then have m: "matchPlaceholder (c # cs) = Some (varName, rest)" by simp
  then obtain c2 t where cs: "cs = c2 # t"
    and rest: "rest = tl (dropWhile (\<lambda>c. c \<noteq> CHR ''}'') t)"
    by (auto simp add: matchPlaceholder_def Let_def split: list.splits if_splits)
  have "length rest \<le> length t"
    unfolding rest using length_dropWhile_le [of "\<lambda>c. c \<noteq> CHR ''}''" t] by simp
  with cs show "((f, rest), (f, c # cs)) \<in> measure (\<lambda>(f, s). length s)" by simp
next
  fix f :: "string \<Rightarrow> string" and c cs
  assume "matchPlaceholder (c # cs) = None"
  show "((f, cs), (f, c # cs)) \<in> measure (\<lambda>(f, s). length s)" by simp
qed

text \<open>
  \<open>process.env[varName] || ''\<close>. \<open>processEnv\<close> holds the variables that are set. A
  name that is not a variable is looked up further in what \<open>process.env\<close> inherits from
  \<open>Object.prototype\<close> (\<open>toString\<close>, \<open>constructor\<close> and the like): what is found there is
  not falsy, so it is what the callback returns, and \<open>replace\<close> inserts its conversion to
  a string. These properties belong to the JavaScript runtime, not to this repository:
  \<open>inherited\<close>, a parameter, gives for the name of each of them that text.
\<close>

definition envValue :: "(string \<rightharpoonup> string) \<Rightarrow> (string \<rightharpoonup> string) \<Rightarrow> string \<Rightarrow> string" where
  "envValue processEnv inherited varName =
     (case processEnv varName of
        Some v \<Rightarrow> v
      | None \<Rightarrow> (case inherited varName of Some text \<Rightarrow> text | None \<Rightarrow> []))"

text \<open>
  \<open>resolveEnvVariables\<close> assigns \<open>resolved[key]\<close> for every entry of \<open>env\<close>. The
  assignment of a string to the key \<open>__proto__\<close> of a plain object creates no property,
  so an entry with that key is not in the result.
\<close>

definition resolveEnvVariables ::
  "(string \<rightharpoonup> string) \<Rightarrow> (string \<rightharpoonup> string) \<Rightarrow> (string \<times> string) list option \<Rightarrow>
   (string \<times> string) list option" where
  "resolveEnvVariables processEnv inherited vars =
     (case vars of
        None \<Rightarrow> None
      | Some entries \<Rightarrow>
          Some (map (\<lambda>(key, v). (key, replacePlaceholders (envValue processEnv inherited) v))
                  (filter (\<lambda>(key, v). key \<noteq> ''__proto__'') entries)))"

text \<open>
  An entry of \<open>mcpServers\<close> in the configuration file. The type of the values of \<open>env\<close> is
  a parameter: text in the file, and a list of tokens in the specification below.
\<close>

record 'v ServerEntry =
  server_command :: string
  server_args :: "string list"
  server_env :: "(string \<times> 'v) list option"
  disabled :: "bool option"
  description :: "string option"

text \<open>
  \<open>loadMCPConfig\<close>, from the parsed file on: the entries of \<open>mcpServers\<close> in the order of
  \<open>Object.entries\<close>. Reading and parsing the file come before and are not modelled.
\<close>

definition loadMCPConfig ::
  "(string \<rightharpoonup> string) \<Rightarrow> (string \<rightharpoonup> string) \<Rightarrow> (string \<times> string ServerEntry) list \<Rightarrow>
   MCPServerConfig list" where
  "loadMCPConfig processEnv inherited mcpServers =
     map (\<lambda>(n, server).
            \<lparr>name = n, command = server_command server, args = server_args server,
             env = resolveEnvVariables processEnv inherited (server_env server)\<rparr>)
       (filter (\<lambda>(n, server). disabled server \<noteq> Some True) mcpServers)"

text \<open>
  The loader in the words of the specification. A value of \<open>env\<close> is a sequence of literal
  text and placeholders \<open>${NAME}\<close>; resolving it replaces every placeholder by the value
  of \<open>NAME\<close> in the process environment, or by the empty string when \<open>NAME\<close> is unset,
  and leaves the literal text as it is. Entries marked disabled are dropped.
\<close>

datatype token = Literal string | Placeholder string

fun render :: "token list \<Rightarrow> string" where
  "render [] = []"
| "render (Literal t # ts) = t @ render ts"
| "render (Placeholder n # ts) = ''${'' @ n @ ''}'' @ render ts"

fun substitute_spec :: "(string \<rightharpoonup> string) \<Rightarrow> token list \<Rightarrow> string" where
  "substitute_spec processEnv [] = []"
| "substitute_spec processEnv (Literal t # ts) = t @ substitute_spec processEnv ts"
| "substitute_spec processEnv (Placeholder n # ts) =
     (case processEnv n of Some v \<Rightarrow> v | None \<Rightarrow> []) @ substitute_spec processEnv ts"

text \<open>
  A sequence of tokens is well formed when a name is not empty and has no \<open>}\<close>, literal
  text has no \<open>${\<close>, and no two literals are adjacent.
\<close>

fun noOpening :: "string \<Rightarrow> bool" where
  "noOpening (c1 # c2 # t) = ((c1 \<noteq> CHR ''$'' \<or> c2 \<noteq> CHR ''{'') \<and> noOpening (c2 # t))"
| "noOpening [c] = True"
| "noOpening [] = True"

fun startsWithLiteral :: "token list \<Rightarrow> bool" where
  "startsWithLiteral (Literal t # ts) = True"
| "startsWithLiteral ts = False"

fun wellFormed :: "token list \<Rightarrow> bool" where
  "wellFormed [] = True"
| "wellFormed (Literal t # ts) = (noOpening t \<and> \<not> startsWithLiteral ts \<and> wellFormed ts)"
| "wellFormed (Placeholder n # ts) =
     (n \<noteq> [] \<and> list_all (\<lambda>c. c \<noteq> CHR ''}'') n \<and> wellFormed ts)"

definition renderEntry :: "token list ServerEntry \<Rightarrow> string ServerEntry" where
  "renderEntry e =
     \<lparr>server_command = server_command e, server_args = server_args e,
      server_env = map_option (map (\<lambda>(key, toks). (key, render toks))) (server_env e),
      disabled = disabled e, description = description e\<rparr>"

definition renderDocument ::
  "(string \<times> token list ServerEntry) list \<Rightarrow> (string \<times> string ServerEntry) list" where
  "renderDocument doc = map (\<lambda>(n, e). (n, renderEntry e)) doc"

definition wellFormedDocument :: "(string \<times> token list ServerEntry) list \<Rightarrow> bool" where
  "wellFormedDocument doc =
     list_all (\<lambda>(n, e). case server_env e of
                           None \<Rightarrow> True
                         | Some vars \<Rightarrow> list_all (\<lambda>(key, toks). wellFormed toks) vars) doc"

definition loadConfigs_spec ::
  "(string \<rightharpoonup> string) \<Rightarrow> (string \<times> token list ServerEntry) list \<Rightarrow> MCPServerConfig list" where
  "loadConfigs_spec processEnv doc =
     map (\<lambda>(n, e).
            \<lparr>name = n, command = server_command e, args = server_args e,
             env = map_option (map (\<lambda>(key, toks). (key, substitute_spec processEnv toks)))
                     (server_env e)\<rparr>)
       (filter (\<lambda>(n, e). disabled e \<noteq> Some True) doc)"

text \<open>
  A placeholder is ordinary when its name is a variable that is set, or is not the name of
  a property that \<open>process.env\<close> inherits; a configuration is ordinary when its
  placeholders are, and no key of an \<open>env\<close> is \<open>__proto__\<close>.
\<close>

fun ordinaryToken :: "(string \<rightharpoonup> string) \<Rightarrow> (string \<rightharpoonup> string) \<Rightarrow> token \<Rightarrow> bool" where
  "ordinaryToken processEnv inherited (Literal t) = True"
| "ordinaryToken processEnv inherited (Placeholder n) =
     (processEnv n \<noteq> None \<or> inherited n = None)"

definition ordinaryDocument ::
  "(string \<rightharpoonup> string) \<Rightarrow> (string \<rightharpoonup> string) \<Rightarrow> (string \<times> token list ServerEntry) list \<Rightarrow> bool" where
  "ordinaryDocument processEnv inherited doc =
     list_all (\<lambda>(n, e). case server_env e of
                           None \<Rightarrow> True
                         | Some vars \<Rightarrow>
                             list_all (\<lambda>(key, toks). key \<noteq> ''__proto__'' \<and>
                                        list_all (ordinaryToken processEnv inherited) toks) vars)
       doc"

section \<open>Predicates and messages used in the statements\<close>

text \<open>The invariant of the registry: every entry is marked connected, and names are unique.\<close>

definition registryInvariant :: "MCPToolAdapter \<Rightarrow> bool" where
  "registryInvariant s =
     (list_all (\<lambda>(n, c). connected c) (connections s) \<and> distinct (map fst (connections s)))"

definition mentionsRetryable :: "string \<Rightarrow> bool" where
  "mentionsRetryable m =
     (mentions ''timeout'' m \<or> mentions_then ''connection'' ''refused'' m \<or>
      mentions ''ECONNRESET'' m \<or> mentions ''ECONNREFUSED'' m \<or>
      mentions ''ETIMEDOUT'' m \<or> mentions ''network'' m \<or> mentions ''unavailable'' m)"

definition retryableWords :: "string list" where
  "retryableWords =
     [''timeout'', ''connection'', ''refused'', ''ECONNRESET'', ''ECONNREFUSED'', ''ETIMEDOUT'',
      ''network'', ''unavailable'']"

definition connectFailure :: "RetryConfig \<Rightarrow> MCPServerConfig \<Rightarrow> string \<Rightarrow> string" where
  "connectFailure rc cfg cause =
     ''Failed to connect to '' @ name cfg @ '' after '' @ numberToString (maxRetries rc + 1)
       @ '' attempts: '' @ cause"


section \<open>The fixtures of the unit tests\<close>

text \<open>
  \<open>testConfig\<close> and the mocked client of the adapter's unit tests: a client whose
  handshakes resolve and whose tool calls all reject with one message, and a client whose
  handshakes reject from the \<open>k\<close>-th on.
\<close>

definition testConfig :: MCPServerConfig where
  "testConfig =
     \<lparr>name = ''test-server'', command = ''node'', args = [''test.js''],
      env = Some [(''API_KEY'', ''test-key'')]\<rparr>"

definition mockCallToolRejects :: "string \<Rightarrow> Transport" where
  "mockCallToolRejects message =
     \<lparr>handshake = (\<lambda>k. None), toolResponse = (\<lambda>k. Inl message),
      listResponse = (\<lambda>k. Inr []), dateNow = (\<lambda>k. 1000 + k)\<rparr>"

definition mockCallToolResolves :: "payload \<Rightarrow> Transport" where
  "mockCallToolResolves result =
     \<lparr>handshake = (\<lambda>k. None), toolResponse = (\<lambda>k. Inr result),
      listResponse = (\<lambda>k. Inr []), dateNow = (\<lambda>k. 1000 + k)\<rparr>"

definition mockConnectRejectsFrom :: "nat \<Rightarrow> string \<Rightarrow> Transport" where
  "mockConnectRejectsFrom k message =
     \<lparr>handshake = (\<lambda>i. if i < k then None else Some message),
      toolResponse = (\<lambda>k. Inr ''result''),
      listResponse = (\<lambda>k. Inr []), dateNow = (\<lambda>k. 1000 + k)\<rparr>"

definition testPolicy :: "int \<Rightarrow> RetryConfig" where
  "testPolicy n = \<lparr>maxRetries = n, initialDelayMs = 10, maxDelayMs = 100, backoffMultiplier = 2\<rparr>"

text \<open>The configuration file of the loader's tests, and the environment they set.\<close>

definition testDocument :: "(string \<times> token list ServerEntry) list" where
  "testDocument =
     [(''test-server'',
       \<lparr>server_command = ''node'', server_args = [''test.js''],
        server_env = Some [(''API_KEY'', [Placeholder ''API_KEY''])],
        disabled = None, description = None\<rparr>),
      (''disabled-server'',
       \<lparr>server_command = ''node'', server_args = [''disabled.js''],
        server_env = None, disabled = Some True, description = None\<rparr>)]"

definition testEnvironment :: "string \<rightharpoonup> string" where
  "testEnvironment = [''API_KEY'' \<mapsto> ''env-api-key'']"

text \<open>
  What the lookup of \<open>toString\<close> in \<open>process.env\<close> finds when no variable has that name:
  the function \<open>Object.prototype.toString\<close>, which Node.js converts to this text. And a
  configuration with a placeholder of that name and a key \<open>__proto__\<close>.
\<close>

definition inheritedToString :: "string \<rightharpoonup> string" where
  "inheritedToString = [''toString'' \<mapsto> ''function toString() { [native code] }'']"

definition quirkDocument :: "(string \<times> token list ServerEntry) list" where
  "quirkDocument =
     [(''test-server'',
       \<lparr>server_command = ''node'', server_args = [''test.js''],
        server_env = Some [(''API_KEY'', [Placeholder ''toString'']),
                           (''__proto__'', [Literal ''x''])],
        disabled = None, description = None\<rparr>)]"

text \<open>The recursive equations of the loops are unfolded by hand, one iteration at a time.\<close>

declare decimal.simps [simp del]
declare bitLength.simps [simp del]
declare connectWithRetry_loop.simps [simp del]
declare callToolWithRetry_loop.simps [simp del]

section \<open>Properties of the matcher\<close>

lemma of_char_canonicalize:
  "(of_char (canonicalize c) :: nat) =
     (if 97 \<le> (of_char c :: nat) \<and> (of_char c :: nat) \<le> 122 then of_char c - 32 else of_char c)"
  by (auto simp add: canonicalize_def Let_def)

lemma lineTerminator_code_units:
  "lineTerminator c = ((of_char c :: nat) = 10 \<or> (of_char c :: nat) = 13)"
proof -
  have "(c = CHR 0x0A) = ((of_char c :: nat) = of_char (CHR 0x0A))"
    by (metis of_char_eq_iff)
  moreover have "(c = CHR 0x0D) = ((of_char c :: nat) = of_char (CHR 0x0D))"
    by (metis of_char_eq_iff)
  ultimately show ?thesis by (simp add: lineTerminator_def)
qed

lemma canonicalize_lineTerminator [simp]: "lineTerminator (canonicalize c) = lineTerminator c"
  unfolding lineTerminator_code_units of_char_canonicalize by auto

lemma matchHere_lit:
  "matchHere (lit w @ ps) s =
     (\<exists>u t. s = u @ t \<and> fold_case u = fold_case w \<and> matchHere ps t)"
proof (induction w arbitrary: s)
  case Nil
  then show ?case by (simp add: lit_def fold_case_def)
next
  case (Cons a w)
  show ?case
  proof (cases s)
    case Nil
    then show ?thesis by (simp add: lit_def fold_case_def)
  next
    case (Cons c cs)
    have "matchHere (lit (a # w) @ ps) (c # cs) =
            (canonicalize a = canonicalize c \<and> matchHere (lit w @ ps) cs)"
      by (simp add: lit_def)
    also have "\<dots> = (canonicalize a = canonicalize c \<and>
            (\<exists>u t. cs = u @ t \<and> fold_case u = fold_case w \<and> matchHere ps t))"
      using Cons.IH by simp
    also have "\<dots> = (\<exists>u t. c # cs = u @ t \<and> fold_case u = fold_case (a # w) \<and> matchHere ps t)"
    proof
      assume "canonicalize a = canonicalize c \<and>
            (\<exists>u t. cs = u @ t \<and> fold_case u = fold_case w \<and> matchHere ps t)"
      then obtain u t where "canonicalize a = canonicalize c" "cs = u @ t"
        "fold_case u = fold_case w" "matchHere ps t" by blast
      then have "c # cs = (c # u) @ t \<and> fold_case (c # u) = fold_case (a # w) \<and> matchHere ps t"
        by (simp add: fold_case_def)
      then show "\<exists>u t. c # cs = u @ t \<and> fold_case u = fold_case (a # w) \<and> matchHere ps t"
        by blast
    next
      assume "\<exists>u t. c # cs = u @ t \<and> fold_case u = fold_case (a # w) \<and> matchHere ps t"
      then obtain u t where h: "c # cs = u @ t" "fold_case u = fold_case (a # w)" "matchHere ps t"
        by blast
      from h(2) obtain c' u' where u: "u = c' # u'"
        by (cases u) (simp_all add: fold_case_def)
      with h have "c' = c" "cs = u' @ t" "canonicalize c' = canonicalize a"
        "fold_case u' = fold_case w"
        by (simp_all add: fold_case_def)
      with h(3) show "canonicalize a = canonicalize c \<and>
            (\<exists>u t. cs = u @ t \<and> fold_case u = fold_case w \<and> matchHere ps t)"
        by auto
    qed
    finally show ?thesis using Cons by simp
  qed
qed

lemma matchHere_DotStar:
  "matchHere (DotStar # ps) s =
     (\<exists>mid t. s = mid @ t \<and> list_all (\<lambda>c. \<not> lineTerminator c) mid \<and> matchHere ps t)"
proof (induction s)
  case Nil
  then show ?case by simp
next
  case (Cons c cs)
  show ?case
  proof
    assume "matchHere (DotStar # ps) (c # cs)"
    then consider "matchHere ps (c # cs)"
      | "\<not> lineTerminator c" "matchHere (DotStar # ps) cs" by auto
    then show "\<exists>mid t. c # cs = mid @ t \<and> list_all (\<lambda>c. \<not> lineTerminator c) mid \<and> matchHere ps t"
    proof cases
      case 1
      then have "c # cs = [] @ (c # cs) \<and> list_all (\<lambda>c. \<not> lineTerminator c) [] \<and> matchHere ps (c # cs)"
        by simp
      then show ?thesis by blast
    next
      case 2
      with Cons.IH obtain mid t where "cs = mid @ t" "list_all (\<lambda>c. \<not> lineTerminator c) mid"
        "matchHere ps t" by blast
      with 2 have "c # cs = (c # mid) @ t \<and> list_all (\<lambda>c. \<not> lineTerminator c) (c # mid) \<and> matchHere ps t"
        by simp
      then show ?thesis by blast
    qed
  next
    assume "\<exists>mid t. c # cs = mid @ t \<and> list_all (\<lambda>c. \<not> lineTerminator c) mid \<and> matchHere ps t"
    then obtain mid t where h: "c # cs = mid @ t" "list_all (\<lambda>c. \<not> lineTerminator c) mid"
      "matchHere ps t" by blast
    show "matchHere (DotStar # ps) (c # cs)"
    proof (cases mid)
      case Nil
      with h have "t = c # cs" by simp
      with h(3) show ?thesis by simp
    next
      case (Cons m mid')
      with h have "m = c" "cs = mid' @ t" "\<not> lineTerminator c"
        "list_all (\<lambda>c. \<not> lineTerminator c) mid'" by simp_all
      with h(3) Cons.IH have "matchHere (DotStar # ps) cs" by blast
      with \<open>\<not> lineTerminator c\<close> show ?thesis by simp
    qed
  qed
qed

lemma test_iff: "test p s = (\<exists>pre t. s = pre @ t \<and> matchHere p t)"
proof (induction s)
  case Nil
  then show ?case by simp
next
  case (Cons c cs)
  show ?case
  proof
    assume "test p (c # cs)"
    then consider "matchHere p (c # cs)" | "test p cs" by auto
    then show "\<exists>pre t. c # cs = pre @ t \<and> matchHere p t"
    proof cases
      case 1
      then have "c # cs = [] @ (c # cs) \<and> matchHere p (c # cs)" by simp
      then show ?thesis by blast
    next
      case 2
      with Cons.IH obtain pre t where "cs = pre @ t" "matchHere p t" by blast
      then have "c # cs = (c # pre) @ t \<and> matchHere p t" by simp
      then show ?thesis by blast
    qed
  next
    assume "\<exists>pre t. c # cs = pre @ t \<and> matchHere p t"
    then obtain pre t where h: "c # cs = pre @ t" "matchHere p t" by blast
    show "test p (c # cs)"
    proof (cases pre)
      case Nil
      with h have "t = c # cs" by simp
      with h(2) show ?thesis by simp
    next
      case (Cons a pre')
      with h have "cs = pre' @ t" by simp
      with h(2) Cons.IH have "test p cs" by blast
      then show ?thesis by simp
    qed
  qed
qed

lemma list_all_fold_case:
  "list_all (\<lambda>c. \<not> lineTerminator c) (fold_case s) = list_all (\<lambda>c. \<not> lineTerminator c) s"
  by (induction s) (simp_all add: fold_case_def)

lemma fold_case_append: "fold_case (a @ b) = fold_case a @ fold_case b"
  by (simp add: fold_case_def)

lemma fold_case_eq_append:
  "(fold_case m = a @ b) = (\<exists>x y. m = x @ y \<and> fold_case x = a \<and> fold_case y = b)"
  unfolding fold_case_def by (auto simp add: map_eq_append_conv)

lemma test_lit: "test (lit w) m = mentions w m"
proof
  assume "test (lit w) m"
  then obtain pre t where m: "m = pre @ t" and "matchHere (lit w @ []) t"
    by (auto simp add: test_iff)
  then obtain u t' where "t = u @ t'" "fold_case u = fold_case w"
    unfolding matchHere_lit by auto
  with m have "fold_case m = fold_case pre @ fold_case w @ fold_case t'"
    by (simp add: fold_case_append)
  then show "mentions w m" unfolding mentions_def by blast
next
  assume "mentions w m"
  then obtain pre post where "fold_case m = pre @ fold_case w @ post"
    unfolding mentions_def by blast
  then obtain x y where m: "m = x @ y" and "fold_case y = fold_case w @ post"
    unfolding fold_case_eq_append by blast
  then obtain u t' where y: "y = u @ t'" and u: "fold_case u = fold_case w"
    unfolding fold_case_eq_append by blast
  have "matchHere (lit w @ []) y"
    unfolding matchHere_lit using y u by auto
  with m show "test (lit w) m" by (auto simp add: test_iff)
qed

lemma test_lit_DotStar_lit:
  "test (lit w1 @ DotStar # lit w2) m = mentions_then w1 w2 m"
proof
  assume "test (lit w1 @ DotStar # lit w2) m"
  then obtain pre t where m: "m = pre @ t" and "matchHere (lit w1 @ DotStar # lit w2) t"
    by (auto simp add: test_iff)
  then obtain u t1 where t: "t = u @ t1" and u: "fold_case u = fold_case w1"
    and "matchHere (DotStar # lit w2) t1"
    unfolding matchHere_lit by auto
  then obtain mid t2 where t1: "t1 = mid @ t2" and mid: "list_all (\<lambda>c. \<not> lineTerminator c) mid"
    and "matchHere (lit w2 @ []) t2"
    unfolding matchHere_DotStar by auto
  then obtain v post where t2: "t2 = v @ post" and v: "fold_case v = fold_case w2"
    unfolding matchHere_lit by auto
  have "fold_case m = fold_case pre @ fold_case w1 @ fold_case mid @ fold_case w2 @ fold_case post"
    using m t u t1 t2 v by (simp add: fold_case_append)
  moreover have "list_all (\<lambda>c. \<not> lineTerminator c) (fold_case mid)"
    using mid by (simp add: list_all_fold_case)
  ultimately show "mentions_then w1 w2 m" unfolding mentions_then_def by blast
next
  assume "mentions_then w1 w2 m"
  then obtain pre mid post where f: "fold_case m = pre @ fold_case w1 @ mid @ fold_case w2 @ post"
    and mid: "list_all (\<lambda>c. \<not> lineTerminator c) mid"
    unfolding mentions_then_def by blast
  from f obtain x t where m: "m = x @ t" and "fold_case t = fold_case w1 @ mid @ fold_case w2 @ post"
    unfolding fold_case_eq_append by blast
  then obtain u t1 where t: "t = u @ t1" and u: "fold_case u = fold_case w1"
    and "fold_case t1 = mid @ fold_case w2 @ post"
    unfolding fold_case_eq_append by blast
  then obtain mid' t2 where t1: "t1 = mid' @ t2" and mid': "fold_case mid' = mid"
    and "fold_case t2 = fold_case w2 @ post"
    unfolding fold_case_eq_append by blast
  then obtain v post' where t2: "t2 = v @ post'" and v: "fold_case v = fold_case w2"
    unfolding fold_case_eq_append by blast
  have "matchHere (lit w2 @ []) t2"
    unfolding matchHere_lit using t2 v by auto
  moreover have "list_all (\<lambda>c. \<not> lineTerminator c) mid'"
    using mid list_all_fold_case [of mid'] unfolding mid' by simp
  ultimately have "matchHere (DotStar # lit w2) t1"
    unfolding matchHere_DotStar using t1 by auto
  then have "matchHere (lit w1 @ DotStar # lit w2) t"
    unfolding matchHere_lit using t u by auto
  with m show "test (lit w1 @ DotStar # lit w2) m" by (auto simp add: test_iff)
qed

section \<open>The error classifier\<close>

lemma isRetryableError_mentions:
  "isRetryableError (Some m) = (m \<noteq> [] \<and> mentionsRetryable m)"
  by (simp add: isRetryableError_def retryablePatterns_def mentionsRetryable_def test_lit
      test_lit_DotStar_lit)

text \<open>
  Claim C3. \<open>isRetryableError\<close> holds of a message exactly when the message is present, is
  not empty, and mentions (letter case ignored) \<open>timeout\<close>, or \<open>connection\<close> followed
  later on the same line by \<open>refused\<close>, or \<open>ECONNRESET\<close>, \<open>ECONNREFUSED\<close>,
  \<open>ETIMEDOUT\<close>, \<open>network\<close> or \<open>unavailable\<close>. An absent message, the empty message and
  the message \<open>Invalid argument\<close> are not retryable.
\<close>

theorem isRetryableError_iff:
  "(isRetryableError e \<longleftrightarrow>
      (\<exists>m. e = Some m \<and> m \<noteq> [] \<and>
         (mentions ''timeout'' m \<or> mentions_then ''connection'' ''refused'' m \<or>
          mentions ''ECONNRESET'' m \<or> mentions ''ECONNREFUSED'' m \<or>
          mentions ''ETIMEDOUT'' m \<or> mentions ''network'' m \<or> mentions ''unavailable'' m)))
   \<and> isRetryableError None = False
   \<and> isRetryableError (Some []) = False
   \<and> isRetryableError (Some ''Invalid argument'') = False"
proof -
  have general: "isRetryableError e \<longleftrightarrow>
      (\<exists>m. e = Some m \<and> m \<noteq> [] \<and>
         (mentions ''timeout'' m \<or> mentions_then ''connection'' ''refused'' m \<or>
          mentions ''ECONNRESET'' m \<or> mentions ''ECONNREFUSED'' m \<or>
          mentions ''ETIMEDOUT'' m \<or> mentions ''network'' m \<or> mentions ''unavailable'' m))"
  proof (cases e)
    case None
    then show ?thesis by (simp add: isRetryableError_def)
  next
    case (Some m)
    then show ?thesis
      using isRetryableError_mentions [of m] by (simp add: mentionsRetryable_def)
  qed
  have absent: "isRetryableError None = False"
    by (simp add: isRetryableError_def)
  have empty: "isRetryableError (Some []) = False"
    by (simp add: isRetryableError_def)
  have invalid: "isRetryableError (Some ''Invalid argument'') = False"
    by code_simp
  from general absent empty invalid show ?thesis by blast
qed

section \<open>Single invocations\<close>

lemma callTool_counts:
  "callTool T serverName toolName arguments s = (r, s1) \<Longrightarrow>
     toolCalls s1 \<le> toolCalls s + 1 \<and> handshakes s1 = handshakes s \<and> sleeps s1 = sleeps s
       \<and> closeCalls s1 = closeCalls s \<and> listCalls s1 = listCalls s"
  by (auto simp add: callTool_def Let_def split: option.splits if_splits sum.splits)

lemma callTool_absent:
  "map_of (connections s) serverName = None \<Longrightarrow>
     callTool T serverName toolName arguments s =
       (failure (''Server '' @ serverName @ '' not connected''), s)"
  by (simp add: callTool_def)

lemma callTool_disconnected:
  "map_of (connections s) serverName = Some c \<Longrightarrow> \<not> connected c \<Longrightarrow>
     callTool T serverName toolName arguments s =
       (failure (''Server '' @ serverName @ '' is disconnected''), s)"
  by (simp add: callTool_def)


text \<open>
  Claim C7. For a name absent from the registry \<open>callTool\<close> returns a failure whose
  message is \<open>Server <name> not connected\<close>, and so contains \<open>not connected\<close>; for a name
  whose entry is marked disconnected it returns a failure whose message contains
  \<open>is disconnected\<close>. In both cases the adapter and the counters of the transport are
  exactly as before: no call reached the transport and no reconnection was tried.
\<close>

theorem callTool_not_connected:
  assumes "callTool T serverName toolName arguments s = (r, s')"
  shows "(map_of (connections s) serverName = None \<longrightarrow>
            \<not> success r \<and> error r = Some (''Server '' @ serverName @ '' not connected'')
            \<and> (\<exists>pre post. error r = Some (pre @ ''not connected'' @ post)) \<and> s' = s)
       \<and> (\<forall>c. map_of (connections s) serverName = Some c \<and> \<not> connected c \<longrightarrow>
            \<not> success r \<and> error r = Some (''Server '' @ serverName @ '' is disconnected'')
            \<and> (\<exists>pre post. error r = Some (pre @ ''is disconnected'' @ post)) \<and> s' = s)"
proof (intro conjI impI allI)
  assume a: "map_of (connections s) serverName = None"
  with assms callTool_absent [OF a, of T toolName arguments]
  have r: "r = failure (''Server '' @ serverName @ '' not connected'')" and s: "s' = s"
    by simp_all
  show "\<not> success r" using r by (simp add: failure_def)
  show "error r = Some (''Server '' @ serverName @ '' not connected'')"
    using r by (simp add: failure_def)
  have "error r = Some ((''Server '' @ serverName @ '' '') @ ''not connected'' @ [])"
    using r by (simp add: failure_def)
  then show "\<exists>pre post. error r = Some (pre @ ''not connected'' @ post)" by blast
  show "s' = s" by (rule s)
next
  fix c
  assume "map_of (connections s) serverName = Some c \<and> \<not> connected c"
  then have a: "map_of (connections s) serverName = Some c" and b: "\<not> connected c"
    by simp_all
  with assms callTool_disconnected [OF a b, of T toolName arguments]
  have r: "r = failure (''Server '' @ serverName @ '' is disconnected'')" and s: "s' = s"
    by simp_all
  show "\<not> success r" using r by (simp add: failure_def)
  show "error r = Some (''Server '' @ serverName @ '' is disconnected'')"
    using r by (simp add: failure_def)
  have "error r = Some ((''Server '' @ serverName @ '' '') @ ''is disconnected'' @ [])"
    using r by (simp add: failure_def)
  then show "\<exists>pre post. error r = Some (pre @ ''is disconnected'' @ post)" by blast
  show "s' = s" by (rule s)
qed

theorem callTool_not_connected_witness:
  "callTool (mockCallToolResolves ''result'') ''non-existent'' ''test_tool'' ''{}'' newAdapter
     = (failure ''Server non-existent not connected'', newAdapter)
   \<and> map_of (connections newAdapter) ''non-existent'' = None
   \<and> \<not> success (failure ''Server non-existent not connected'')
   \<and> error (failure ''Server non-existent not connected'')
       = Some (''Server '' @ ''non-existent'' @ '' not connected'')
   \<and> callTool (mockCallToolResolves ''result'') ''test-server'' ''test_tool'' ''{}''
        (newAdapter\<lparr>connections :=
           [(''test-server'',
             \<lparr>client = 0, config = testConfig, connected = False, lastActivity = 1000,
              retryCount = 0\<rparr>)]\<rparr>)
     = (failure ''Server test-server is disconnected'',
        newAdapter\<lparr>connections :=
           [(''test-server'',
             \<lparr>client = 0, config = testConfig, connected = False, lastActivity = 1000,
              retryCount = 0\<rparr>)]\<rparr>)
   \<and> error (failure ''Server test-server is disconnected'')
       = Some (''Server '' @ ''test-server'' @ '' is disconnected'')"
proof -
  have h1: "callTool (mockCallToolResolves ''result'') ''non-existent'' ''test_tool'' ''{}''
              newAdapter
            = (failure ''Server non-existent not connected'', newAdapter)"
    by code_simp
  have a1: "map_of (connections newAdapter) ''non-existent'' = None" by code_simp
  have h2: "callTool (mockCallToolResolves ''result'') ''test-server'' ''test_tool'' ''{}''
        (newAdapter\<lparr>connections :=
           [(''test-server'',
             \<lparr>client = 0, config = testConfig, connected = False, lastActivity = 1000,
              retryCount = 0\<rparr>)]\<rparr>)
     = (failure ''Server test-server is disconnected'',
        newAdapter\<lparr>connections :=
           [(''test-server'',
             \<lparr>client = 0, config = testConfig, connected = False, lastActivity = 1000,
              retryCount = 0\<rparr>)]\<rparr>)"
    by code_simp
  have a2: "map_of (connections (newAdapter\<lparr>connections :=
           [(''test-server'',
             \<lparr>client = 0, config = testConfig, connected = False, lastActivity = 1000,
              retryCount = 0\<rparr>)]\<rparr>)) ''test-server''
        = Some \<lparr>client = 0, config = testConfig, connected = False, lastActivity = 1000,
              retryCount = 0\<rparr>
      \<and> \<not> connected \<lparr>client = 0, config = testConfig, connected = False, lastActivity = 1000,
              retryCount = 0\<rparr>"
    by simp
  from callTool_not_connected [OF h1] a1
  have "\<not> success (failure ''Server non-existent not connected'')
      \<and> error (failure ''Server non-existent not connected'')
          = Some (''Server '' @ ''non-existent'' @ '' not connected'')"
    by blast
  moreover from callTool_not_connected [OF h2] a2
  have "error (failure ''Server test-server is disconnected'')
          = Some (''Server '' @ ''test-server'' @ '' is disconnected'')"
    by blast
  ultimately show ?thesis using h1 a1 h2 by blast
qed

section \<open>Invocation with retry: a failure that is not retryable\<close>

lemma callToolWithRetry_first_failure:
  assumes "0 \<le> maxRetries rc"
    and "callTool T serverName toolName arguments s = (r, s1)"
    and "\<not> success r" and "\<not> isRetryableError (error r)"
  shows "callToolWithRetry T rc serverName toolName arguments s = (r, s1)"
  unfolding callToolWithRetry_def
  by (subst callToolWithRetry_loop.simps) (simp add: assms)

text \<open>
  Claim C1. When the first \<open>callTool\<close> of \<open>callToolWithRetry\<close> fails with a message that
  is not retryable, \<open>callToolWithRetry\<close> returns the result of that one \<open>callTool\<close> and
  leaves the adapter as that one \<open>callTool\<close> left it, whatever the retry policy: at most
  one call reached the transport, there was no handshake and no sleep. That there is a first
  attempt is the hypothesis \<open>0 \<le> maxRetries\<close>: under a negative \<open>maxRetries\<close> the loop
  body never runs.
\<close>

theorem callToolWithRetry_non_retryable:
  assumes "0 \<le> maxRetries rc"
    and "callTool T serverName toolName arguments s = (r, s1)"
    and "\<not> success r" and "\<not> isRetryableError (error r)"
  shows "callToolWithRetry T rc serverName toolName arguments s = (r, s1)
           \<and> toolCalls s1 \<le> toolCalls s + 1 \<and> handshakes s1 = handshakes s
           \<and> sleeps s1 = sleeps s"
  using callToolWithRetry_first_failure [OF assms] callTool_counts [OF assms(2)] by simp

theorem callToolWithRetry_non_retryable_witness:
  "0 \<le> maxRetries (testPolicy 3)
   \<and> callTool (mockCallToolRejects ''Invalid argument'') ''test-server'' ''test_tool'' ''{}''
       (run (mockCallToolRejects ''Invalid argument'') (testPolicy 3) [Connect testConfig])
     = (failure ''Invalid argument'',
        \<lparr>connections =
           [(''test-server'',
             \<lparr>client = 0, config = testConfig, connected = True, lastActivity = 1001,
              retryCount = 0\<rparr>)],
         handshakes = 1, toolCalls = 1, listCalls = 0, closeCalls = 0, dateReads = 2,
         sleeps = []\<rparr>)
   \<and> \<not> success (failure ''Invalid argument'')
   \<and> \<not> isRetryableError (error (failure ''Invalid argument''))
   \<and> callToolWithRetry (mockCallToolRejects ''Invalid argument'') (testPolicy 3)
        ''test-server'' ''test_tool'' ''{}''
        (run (mockCallToolRejects ''Invalid argument'') (testPolicy 3) [Connect testConfig])
     = (failure ''Invalid argument'',
        \<lparr>connections =
           [(''test-server'',
             \<lparr>client = 0, config = testConfig, connected = True, lastActivity = 1001,
              retryCount = 0\<rparr>)],
         handshakes = 1, toolCalls = 1, listCalls = 0, closeCalls = 0, dateReads = 2,
         sleeps = []\<rparr>)"
proof -
  have h0: "0 \<le> maxRetries (testPolicy 3)" by (simp add: testPolicy_def)
  have h1: "callTool (mockCallToolRejects ''Invalid argument'') ''test-server'' ''test_tool'' ''{}''
       (run (mockCallToolRejects ''Invalid argument'') (testPolicy 3) [Connect testConfig])
     = (failure ''Invalid argument'',
        \<lparr>connections =
           [(''test-server'',
             \<lparr>client = 0, config = testConfig, connected = True, lastActivity = 1001,
              retryCount = 0\<rparr>)],
         handshakes = 1, toolCalls = 1, listCalls = 0, closeCalls = 0, dateReads = 2,
         sleeps = []\<rparr>)"
    by code_simp
  have h2: "\<not> success (failure ''Invalid argument'')" by code_simp
  have h3: "\<not> isRetryableError (error (failure ''Invalid argument''))" by code_simp
  from callToolWithRetry_non_retryable [OF h0 h1 h2 h3] h0 h1 h2 h3
  show ?thesis by simp
qed

section \<open>The retry counter\<close>

text \<open>
  What \<open>callTool\<close> does to the counter of a registered connection: a success sets it to
  0, a failure leaves it as it was.
\<close>

lemma retryCount_after_callTool:
  assumes "map_of (connections s) serverName = Some c"
    and "callTool T serverName toolName arguments s = (r, s')"
  shows "\<exists>c'. map_of (connections s') serverName = Some c'
           \<and> (success r \<longrightarrow> retryCount c' = 0)
           \<and> (\<not> success r \<longrightarrow> retryCount c' = retryCount c)"
proof (cases "connected c")
  case False
  with assms callTool_disconnected [OF assms(1) False, of T toolName arguments]
  show ?thesis by (auto simp add: failure_def)
next
  case True
  show ?thesis
  proof (cases "toolResponse T (toolCalls s)")
    case (Inl m)
    with assms True show ?thesis
      by (auto simp add: callTool_def Let_def map_of_map_entry failure_def)
  next
    case (Inr result)
    with assms True show ?thesis
      by (auto simp add: callTool_def Let_def map_of_map_entry)
  qed
qed

text \<open>
  Claim C5 at a failing input. After \<open>connect(testConfig)\<close> the counter of
  \<open>test-server\<close> is 0; the tool call is rejected with \<open>Tool call failed\<close>, \<open>callTool\<close>
  returns the failure, and the counter is still 0, where the claim has it incremented
  to 1.
\<close>

theorem callTool_failure_keeps_retryCount:
  "fst (callTool (mockCallToolRejects ''Tool call failed'') ''test-server''
        ''test_tool'' ''{}''
        (run (mockCallToolRejects ''Tool call failed'') (testPolicy 3) [Connect testConfig]))
     = failure ''Tool call failed''
   \<and> map_option retryCount
       (map_of (connections
          (run (mockCallToolRejects ''Tool call failed'') (testPolicy 3) [Connect testConfig]))
          ''test-server'') = Some 0
   \<and> map_option retryCount
       (map_of (connections (snd (callTool (mockCallToolRejects ''Tool call failed'')
          ''test-server'' ''test_tool'' ''{}''
          (run (mockCallToolRejects ''Tool call failed'') (testPolicy 3) [Connect testConfig]))))
          ''test-server'') = Some 0"
  by code_simp

section \<open>Retry loops: attempts, failure messages and sleeps\<close>

lemma establish_Inl:
  "establish T cfg s = (Inl e, s1) \<Longrightarrow>
     handshake T (handshakes s) = Some e \<and> s1 = s\<lparr>handshakes := handshakes s + 1\<rparr>"
  by (auto simp add: establish_def Let_def split: option.splits)

lemma establish_counts:
  "establish T cfg s = (res, s1) \<Longrightarrow>
     handshakes s1 = handshakes s + 1 \<and> sleeps s1 = sleeps s \<and> toolCalls s1 = toolCalls s"
  by (auto simp add: establish_def Let_def split: option.splits)

lemma disconnect_counts:
  "handshakes (disconnect n s) = handshakes s \<and> sleeps (disconnect n s) = sleeps s
     \<and> toolCalls (disconnect n s) = toolCalls s"
  by (simp add: disconnect_def split: option.splits)

lemma connect_Inl:
  "connect T cfg s = (Inl e, s1) \<Longrightarrow>
     handshake T (handshakes s) = Some e \<and> handshakes s1 = handshakes s + 1
       \<and> sleeps s1 = sleeps s \<and> toolCalls s1 = toolCalls s"
  unfolding connect_def
  by (auto split: option.splits if_splits dest!: establish_Inl simp add: disconnect_counts)

lemma connect_counts:
  "connect T cfg s = (res, s1) \<Longrightarrow>
     handshakes s1 \<le> handshakes s + 1 \<and> sleeps s1 = sleeps s \<and> toolCalls s1 = toolCalls s"
  unfolding connect_def
  by (auto split: option.splits if_splits dest!: establish_counts simp add: disconnect_counts)

lemma connect_rejected:
  assumes "\<not> isConnected s (name cfg)" and "handshake T (handshakes s) = Some m"
  shows "\<exists>s1. connect T cfg s = (Inl m, s1) \<and> \<not> isConnected s1 (name cfg)"
proof (cases "map_of (connections s) (name cfg)")
  case None
  with assms show ?thesis
    by (simp add: connect_def establish_def isConnected_def)
next
  case (Some existing)
  with assms(1) have "\<not> connected existing" by (simp add: isConnected_def)
  with Some assms(2) show ?thesis
    by (simp add: connect_def establish_def isConnected_def disconnect_def AList.delete_conv')
qed

lemma connect_Inr_connected:
  "connect T cfg s = (Inr u, s1) \<Longrightarrow> isConnected s1 (name cfg)"
  by (auto simp add: connect_def establish_def isConnected_def Let_def AList.update_conv'
      split: option.splits if_splits)

lemma connectWithRetry_loop_ok:
  "attempt \<le> maxRetries rc \<Longrightarrow> connect T cfg s = (Inr u, s1) \<Longrightarrow>
     connectWithRetry_loop T rc cfg attempt delay lastError s = (Inr (), s1)"
  by (subst connectWithRetry_loop.simps) simp

lemma connectWithRetry_loop_retry:
  "attempt < maxRetries rc \<Longrightarrow> connect T cfg s = (Inl m, s1) \<Longrightarrow>
     connectWithRetry_loop T rc cfg attempt delay lastError s =
       connectWithRetry_loop T rc cfg (attempt + 1)
         (min (jsMultiply delay (backoffMultiplier rc)) (maxDelayMs rc)) (Some m) (sleep delay s1)"
  by (subst connectWithRetry_loop.simps) simp

lemma connectWithRetry_loop_done:
  "\<not> attempt \<le> maxRetries rc \<Longrightarrow>
     connectWithRetry_loop T rc cfg attempt delay (Some m) s = (Inl (connectFailure rc cfg m), s)"
  by (subst connectWithRetry_loop.simps) (simp add: connectFailure_def)

lemma connectWithRetry_loop_last:
  "attempt = maxRetries rc \<Longrightarrow> connect T cfg s = (Inl m, s1) \<Longrightarrow>
     connectWithRetry_loop T rc cfg attempt delay lastError s =
       (Inl (connectFailure rc cfg m), s1)"
  by (subst connectWithRetry_loop.simps) (simp add: connectWithRetry_loop_done)

text \<open>
  The whole run of the loop of \<open>connectWithRetry\<close> from attempt \<open>attempt\<close>, with \<open>k\<close>
  retries left.
\<close>

lemma connectWithRetry_loop_run:
  "nat (maxRetries rc - attempt) = k \<Longrightarrow> attempt \<le> maxRetries rc \<Longrightarrow>
   connectWithRetry_loop T rc cfg attempt delay lastError s = (res, s') \<Longrightarrow>
     handshakes s' \<le> handshakes s + (k + 1) \<and>
     (res = Inr () \<longrightarrow> isConnected s' (name cfg)) \<and>
     (\<forall>e. res = Inl e \<longrightarrow>
        handshakes s' = handshakes s + (k + 1) \<and>
        (\<forall>i < k + 1. handshake T (handshakes s + i) \<noteq> None) \<and>
        (\<exists>cause. handshake T (handshakes s + k) = Some cause \<and> e = connectFailure rc cfg cause) \<and>
        sleeps s' = sleeps s @ backoff rc k delay)"
proof (induction k arbitrary: attempt delay lastError s)
  case 0
  then have a: "attempt = maxRetries rc" by simp
  obtain r s1 where c: "connect T cfg s = (r, s1)" by (cases "connect T cfg s")
  show ?case
  proof (cases r)
    case (Inr u)
    with connectWithRetry_loop_ok [of attempt rc T cfg s u s1 delay lastError] c "0.prems"
    have "res = Inr ()" "s' = s1" by simp_all
    with connect_counts [OF c] connect_Inr_connected [of T cfg s u s1] c Inr
    show ?thesis by simp
  next
    case (Inl m)
    with connectWithRetry_loop_last [OF a, of T cfg s m s1 delay lastError] c "0.prems"
    have "res = Inl (connectFailure rc cfg m)" "s' = s1" by simp_all
    with connect_Inl [of T cfg s m s1] c Inl show ?thesis by simp
  qed
next
  case (Suc k)
  then have a: "attempt < maxRetries rc" by simp
  obtain r s1 where c: "connect T cfg s = (r, s1)" by (cases "connect T cfg s")
  show ?case
  proof (cases r)
    case (Inr u)
    with connectWithRetry_loop_ok [of attempt rc T cfg s u s1 delay lastError] c Suc.prems
    have "res = Inr ()" "s' = s1" by simp_all
    with connect_counts [OF c] connect_Inr_connected [of T cfg s u s1] c Inr
    show ?thesis by simp
  next
    case (Inl m)
    with c have c': "connect T cfg s = (Inl m, s1)" by simp
    note f = connect_Inl [OF c']
    let ?d = "min (jsMultiply delay (backoffMultiplier rc)) (maxDelayMs rc)"
    have step: "connectWithRetry_loop T rc cfg (attempt + 1) ?d (Some m) (sleep delay s1) = (res, s')"
      using connectWithRetry_loop_retry [OF a c', of delay lastError] Suc.prems by simp
    have k: "nat (maxRetries rc - (attempt + 1)) = k" using Suc.prems by simp
    have le: "attempt + 1 \<le> maxRetries rc" using a by simp
    note ih = Suc.IH [OF k le step]
    have hs: "handshakes (sleep delay s1) = handshakes s + 1" using f by (simp add: sleep_def)
    have sl: "sleeps (sleep delay s1) = sleeps s @ [delay]" using f by (simp add: sleep_def)
    have bound: "handshakes s' \<le> handshakes s + (Suc k + 1)" using ih hs by simp
    have ok: "res = Inr () \<longrightarrow> isConnected s' (name cfg)" using ih by blast
    have fail: "handshakes s' = handshakes s + (Suc k + 1) \<and>
        (\<forall>i < Suc k + 1. handshake T (handshakes s + i) \<noteq> None) \<and>
        (\<exists>cause. handshake T (handshakes s + Suc k) = Some cause \<and> e = connectFailure rc cfg cause) \<and>
        sleeps s' = sleeps s @ backoff rc (Suc k) delay" if e: "res = Inl e" for e
    proof -
      from ih e have 1: "handshakes s' = handshakes (sleep delay s1) + (k + 1)"
        and 2: "\<forall>i < k + 1. handshake T (handshakes (sleep delay s1) + i) \<noteq> None"
        and 3: "\<exists>cause. handshake T (handshakes (sleep delay s1) + k) = Some cause
                  \<and> e = connectFailure rc cfg cause"
        and 4: "sleeps s' = sleeps (sleep delay s1) @ backoff rc k ?d"
        by simp_all
      have all: "handshake T (handshakes s + i) \<noteq> None" if "i < Suc k + 1" for i
      proof (cases i)
        case 0
        with f show ?thesis by simp
      next
        case (Suc j)
        with that have "j < k + 1" by simp
        with 2 hs have "handshake T (handshakes s + 1 + j) \<noteq> None" by simp
        with Suc show ?thesis by simp
      qed
      from 1 hs have "handshakes s' = handshakes s + (Suc k + 1)" by simp
      moreover from 3 hs have "\<exists>cause. handshake T (handshakes s + Suc k) = Some cause
          \<and> e = connectFailure rc cfg cause"
        by simp
      moreover from 4 sl have "sleeps s' = sleeps s @ backoff rc (Suc k) delay" by simp
      ultimately show ?thesis using all by blast
    qed
    from bound ok fail show ?thesis by blast
  qed
qed

text \<open>
  When the server is not connected and the next \<open>k + 1\<close> handshakes are all rejected, the
  loop ends by throwing.
\<close>

lemma connectWithRetry_loop_exhausts:
  "nat (maxRetries rc - attempt) = k \<Longrightarrow> attempt \<le> maxRetries rc \<Longrightarrow>
   \<not> isConnected s (name cfg) \<Longrightarrow>
   \<forall>i < k + 1. handshake T (handshakes s + i) \<noteq> None \<Longrightarrow>
   \<exists>e s'. connectWithRetry_loop T rc cfg attempt delay lastError s = (Inl e, s')"
proof (induction k arbitrary: attempt delay lastError s)
  case 0
  then have a: "attempt = maxRetries rc" by simp
  from "0.prems"(4) obtain m where m: "handshake T (handshakes s) = Some m" by auto
  from connect_rejected [OF "0.prems"(3) m]
  obtain s1 where c: "connect T cfg s = (Inl m, s1)" by blast
  from connectWithRetry_loop_last [OF a c, of delay lastError] show ?case by blast
next
  case (Suc k)
  then have a: "attempt < maxRetries rc" by simp
  from Suc.prems(4) obtain m where m: "handshake T (handshakes s) = Some m" by force
  from connect_rejected [OF Suc.prems(3) m]
  obtain s1 where c: "connect T cfg s = (Inl m, s1)" and n: "\<not> isConnected s1 (name cfg)"
    by blast
  note f = connect_Inl [OF c]
  have k: "nat (maxRetries rc - (attempt + 1)) = k" using Suc.prems by simp
  have le: "attempt + 1 \<le> maxRetries rc" using a by simp
  have n': "\<not> isConnected (sleep delay s1) (name cfg)"
    using n by (simp add: isConnected_def sleep_def)
  have rest: "\<forall>i < k + 1. handshake T (handshakes (sleep delay s1) + i) \<noteq> None"
  proof (intro allI impI)
    fix i assume "i < k + 1"
    then have "Suc i < Suc k + 1" by simp
    with Suc.prems(4) have "handshake T (handshakes s + Suc i) \<noteq> None" by blast
    with f show "handshake T (handshakes (sleep delay s1) + i) \<noteq> None"
      by (simp add: sleep_def)
  qed
  from Suc.IH [OF k le n' rest] connectWithRetry_loop_retry [OF a c, of delay lastError]
  show ?case by simp
qed

lemma digitsValue_snoc: "digitsValue (ds @ [c]) = 10 * digitsValue ds + (of_char c - 48)"
  by (simp add: digitsValue_def)

lemma decimal_value: "digitsValue (decimal n) = n"
proof (induction n rule: decimal.induct)
  case (1 n)
  show ?case
  proof (cases "n < 10")
    case True
    then show ?thesis
      by (subst decimal.simps) (simp add: digitsValue_def)
  next
    case False
    have "n mod 10 < 10" by simp
    then have d: "(of_char (char_of (48 + n mod 10) :: char) :: nat) = 48 + n mod 10"
      by simp
    from False "1.IH" have "digitsValue (decimal (n div 10)) = n div 10" by simp
    with False d show ?thesis
      by (subst decimal.simps) (simp add: digitsValue_snoc)
  qed
qed

lemma numberToString_value: "0 \<le> n \<Longrightarrow> int (digitsValue (numberToString n)) = n"
  by (simp add: numberToString_def decimal_value)

text \<open>
  Claim C2, as the code has it. For a retry policy whose \<open>maxRetries\<close> is a non-negative
  integer below \<open>2^53\<close>: \<open>connectWithRetry\<close> makes at most \<open>maxRetries + 1\<close> handshakes;
  when it returns normally the server is connected; when it throws, it has made exactly
  \<open>maxRetries + 1\<close> handshakes, every one of them rejected, and the message thrown is
  \<open>Failed to connect to <name> after <count> attempts: \<close> followed by the message of the
  last rejection, \<open>count\<close> being \<open>maxRetries + 1\<close> in decimal digits; and when the server
  is not connected and the next \<open>maxRetries + 1\<close> handshakes are all rejected, it throws.
\<close>

theorem connectWithRetry_attempts:
  assumes "0 \<le> maxRetries rc" and "maxRetries rc < 2 ^ 53"
  shows "(\<forall>res s'. connectWithRetry T rc cfg s = (res, s') \<longrightarrow>
            handshakes s' \<le> handshakes s + nat (maxRetries rc + 1) \<and>
            (res = Inr () \<longrightarrow> isConnected s' (name cfg)) \<and>
            (\<forall>e. res = Inl e \<longrightarrow>
               handshakes s' = handshakes s + nat (maxRetries rc + 1) \<and>
               (\<forall>i < nat (maxRetries rc + 1). handshake T (handshakes s + i) \<noteq> None) \<and>
               (\<exists>cause. handshake T (handshakes s + nat (maxRetries rc)) = Some cause \<and>
                  e = ''Failed to connect to '' @ name cfg @ '' after ''
                        @ numberToString (maxRetries rc + 1) @ '' attempts: '' @ cause)))
       \<and> (\<not> isConnected s (name cfg) \<and>
            (\<forall>i < nat (maxRetries rc + 1). handshake T (handshakes s + i) \<noteq> None) \<longrightarrow>
            (\<exists>e s'. connectWithRetry T rc cfg s = (Inl e, s')))
       \<and> int (digitsValue (numberToString (maxRetries rc + 1))) = maxRetries rc + 1"
proof (intro conjI allI impI)
  have k: "nat (maxRetries rc + 1) = nat (maxRetries rc) + 1" using assms(1) by simp
  have k0: "nat (maxRetries rc - 0) = nat (maxRetries rc)" by simp
  {
    fix res s'
    assume "connectWithRetry T rc cfg s = (res, s')"
    then have l: "connectWithRetry_loop T rc cfg 0 (initialDelayMs rc) None s = (res, s')"
      by (simp add: connectWithRetry_def)
    note r = connectWithRetry_loop_run [OF k0 assms(1) l]
    from r show "handshakes s' \<le> handshakes s + nat (maxRetries rc + 1)" by (simp add: k)
    {
      assume "res = Inr ()"
      with r show "isConnected s' (name cfg)" by blast
    }
    {
      fix e assume e: "res = Inl e"
      from r e show "handshakes s' = handshakes s + nat (maxRetries rc + 1)" by (simp add: k)
      from r e show "\<exists>cause. handshake T (handshakes s + nat (maxRetries rc)) = Some cause \<and>
                  e = ''Failed to connect to '' @ name cfg @ '' after ''
                        @ numberToString (maxRetries rc + 1) @ '' attempts: '' @ cause"
        by (simp add: connectFailure_def)
      fix i assume "i < nat (maxRetries rc + 1)"
      with r e show "handshake T (handshakes s + i) \<noteq> None" by (simp add: k)
    }
  }
  {
    assume "\<not> isConnected s (name cfg) \<and>
            (\<forall>i < nat (maxRetries rc + 1). handshake T (handshakes s + i) \<noteq> None)"
    then have n: "\<not> isConnected s (name cfg)"
      and a: "\<forall>i < nat (maxRetries rc) + 1. handshake T (handshakes s + i) \<noteq> None"
      by (simp_all add: k)
    from connectWithRetry_loop_exhausts [OF k0 assms(1) n a]
    show "\<exists>e s'. connectWithRetry T rc cfg s = (Inl e, s')"
      by (simp add: connectWithRetry_def)
  }
  from assms(1) show "int (digitsValue (numberToString (maxRetries rc + 1))) = maxRetries rc + 1"
    by (intro numberToString_value) simp
qed

theorem connectWithRetry_attempts_witness:
  "0 \<le> maxRetries (testPolicy 2) \<and> maxRetries (testPolicy 2) < 2 ^ 53
   \<and> \<not> isConnected newAdapter (name testConfig)
   \<and> handshake (mockConnectRejectsFrom 0 ''Connection failed'') (handshakes newAdapter + 0)
       = Some ''Connection failed''
   \<and> handshake (mockConnectRejectsFrom 0 ''Connection failed'') (handshakes newAdapter + 1)
       = Some ''Connection failed''
   \<and> handshake (mockConnectRejectsFrom 0 ''Connection failed'') (handshakes newAdapter + 2)
       = Some ''Connection failed''
   \<and> connectWithRetry (mockConnectRejectsFrom 0 ''Connection failed'') (testPolicy 2) testConfig
       newAdapter
     = (Inl ''Failed to connect to test-server after 3 attempts: Connection failed'',
        newAdapter\<lparr>handshakes := 3, sleeps := [10, 20]\<rparr>)
   \<and> (\<exists>e s'. connectWithRetry (mockConnectRejectsFrom 0 ''Connection failed'') (testPolicy 2)
         testConfig newAdapter = (Inl e, s'))
   \<and> handshakes (newAdapter\<lparr>handshakes := 3, sleeps := [10, 20]\<rparr>)
       = handshakes newAdapter + nat (maxRetries (testPolicy 2) + 1)
   \<and> connectWithRetry (mockConnectRejectsFrom 2 ''Connection failed'') (testPolicy 3) testConfig
       newAdapter
     = (Inr (), run (mockConnectRejectsFrom 2 ''Connection failed'') (testPolicy 3)
                  [ConnectWithRetry testConfig])
   \<and> isConnected (run (mockConnectRejectsFrom 2 ''Connection failed'') (testPolicy 3)
         [ConnectWithRetry testConfig]) (name testConfig)"
proof -
  have p: "0 \<le> maxRetries (testPolicy 2)" "maxRetries (testPolicy 2) < 2 ^ 53"
    "0 \<le> maxRetries (testPolicy 3)" "maxRetries (testPolicy 3) < 2 ^ 53"
    by (simp_all add: testPolicy_def)
  have n: "\<not> isConnected newAdapter (name testConfig)" by code_simp
  have a: "\<forall>i < nat (maxRetries (testPolicy 2) + 1).
         handshake (mockConnectRejectsFrom 0 ''Connection failed'') (handshakes newAdapter + i)
           \<noteq> None"
    by (simp add: mockConnectRejectsFrom_def)
  have h: "connectWithRetry (mockConnectRejectsFrom 0 ''Connection failed'') (testPolicy 2)
       testConfig newAdapter
     = (Inl ''Failed to connect to test-server after 3 attempts: Connection failed'',
        newAdapter\<lparr>handshakes := 3, sleeps := [10, 20]\<rparr>)"
    by code_simp
  have g: "connectWithRetry (mockConnectRejectsFrom 2 ''Connection failed'') (testPolicy 3)
       testConfig newAdapter
     = (Inr (), run (mockConnectRejectsFrom 2 ''Connection failed'') (testPolicy 3)
                  [ConnectWithRetry testConfig])"
    by code_simp
  note t = connectWithRetry_attempts [OF p(1,2), of "mockConnectRejectsFrom 0 ''Connection failed''"
      testConfig newAdapter]
  from t n a have 1: "\<exists>e s'. connectWithRetry (mockConnectRejectsFrom 0 ''Connection failed'')
         (testPolicy 2) testConfig newAdapter = (Inl e, s')"
    by blast
  from t h have 2: "handshakes (newAdapter\<lparr>handshakes := 3, sleeps := [10, 20]\<rparr>)
       = handshakes newAdapter + nat (maxRetries (testPolicy 2) + 1)"
    by blast
  from connectWithRetry_attempts [OF p(3,4), of "mockConnectRejectsFrom 2 ''Connection failed''"
      testConfig newAdapter] g
  have 3: "isConnected (run (mockConnectRejectsFrom 2 ''Connection failed'') (testPolicy 3)
         [ConnectWithRetry testConfig]) (name testConfig)"
    by blast
  have q: "handshake (mockConnectRejectsFrom 0 ''Connection failed'') (handshakes newAdapter + 0)
       = Some ''Connection failed''"
    "handshake (mockConnectRejectsFrom 0 ''Connection failed'') (handshakes newAdapter + 1)
       = Some ''Connection failed''"
    "handshake (mockConnectRejectsFrom 0 ''Connection failed'') (handshakes newAdapter + 2)
       = Some ''Connection failed''"
    by (simp_all add: mockConnectRejectsFrom_def)
  from p(1,2) n q h 1 2 g 3 show ?thesis by blast
qed

text \<open>
  Claim C2 as stated fails for a policy with a negative \<open>maxRetries\<close>. With
  \<open>maxRetries = -2\<close> the loop body never runs: \<open>connectWithRetry\<close> throws at once, though
  no handshake was made and the first handshake would have been accepted; the number of
  handshakes made, 0, is above \<open>maxRetries + 1\<close>, and the message names no cause.
\<close>

theorem connectWithRetry_negative_counterexample:
  "connectWithRetry (mockCallToolResolves ''result'') (testPolicy (- 2)) testConfig newAdapter
     = (Inl ''Failed to connect to test-server after -1 attempts: undefined'', newAdapter)
   \<and> handshake (mockCallToolResolves ''result'') (handshakes newAdapter) = None
   \<and> \<not> int (handshakes newAdapter) \<le> int (handshakes newAdapter) + (maxRetries (testPolicy (- 2)) + 1)"
  by code_simp


lemma reconnect_absent:
  "map_of (connections s) serverName = None \<Longrightarrow> reconnect T serverName s = s"
  by (simp add: reconnect_def)





subsection \<open>Products that are exact\<close>




subsection \<open>The delays in closed form\<close>











section \<open>The invariant of the registry\<close>

lemma all_delete:
  "list_all P al \<Longrightarrow> list_all P (AList.delete k al)"
  by (simp add: AList.delete_eq list_all_iff)

lemma all_update:
  "list_all (\<lambda>(n, c). Q c) al \<Longrightarrow> Q v \<Longrightarrow> list_all (\<lambda>(n, c). Q c) (AList.update k v al)"
  by (induction al) auto

lemma all_map_entry:
  "list_all (\<lambda>(n, c). Q c) al \<Longrightarrow> (\<And>c. Q c \<Longrightarrow> Q (f c)) \<Longrightarrow>
     list_all (\<lambda>(n, c). Q c) (AList.map_entry k f al)"
  by (induction al) auto

lemma inv_newAdapter: "registryInvariant newAdapter"
  by (simp add: registryInvariant_def newAdapter_def)

lemma inv_sleep: "registryInvariant (sleep ms s) = registryInvariant s"
  by (simp add: registryInvariant_def sleep_def)

lemma inv_disconnect: "registryInvariant s \<Longrightarrow> registryInvariant (disconnect n s)"
  by (auto simp add: registryInvariant_def disconnect_def all_delete distinct_delete
      split: option.splits)

lemma inv_establish: "registryInvariant s \<Longrightarrow> registryInvariant (snd (establish T cfg s))"
  by (auto simp add: registryInvariant_def establish_def Let_def all_update distinct_update
      split: option.splits)

lemma inv_connect: "registryInvariant s \<Longrightarrow> registryInvariant (snd (connect T cfg s))"
  by (auto simp add: connect_def inv_establish inv_disconnect split: option.splits)

lemma inv_callTool:
  "registryInvariant s \<Longrightarrow> registryInvariant (snd (callTool T n t a s))"
  by (auto simp add: registryInvariant_def callTool_def Let_def all_map_entry distinct_map_entry
      split: option.splits sum.splits)

lemma inv_listTools:
  "registryInvariant s \<Longrightarrow> registryInvariant (snd (listTools T n s))"
  by (auto simp add: registryInvariant_def listTools_def Let_def all_map_entry distinct_map_entry
      split: option.splits sum.splits)

lemma inv_reconnect: "registryInvariant s \<Longrightarrow> registryInvariant (reconnect T n s)"
  by (auto simp add: reconnect_def inv_connect split: option.splits)

lemma inv_connectWithRetry_loop:
  "registryInvariant s \<Longrightarrow>
     registryInvariant (snd (connectWithRetry_loop T rc cfg attempt delay lastError s))"
proof (induction T rc cfg attempt delay lastError s rule: connectWithRetry_loop.induct)
  case (1 T rc cfg attempt delay lastError s)
  obtain r s1 where c: "connect T cfg s = (r, s1)" by (cases "connect T cfg s")
  with inv_connect [OF "1.prems", of T cfg] have i1: "registryInvariant s1" by simp
  show ?case
  proof (cases "attempt \<le> maxRetries rc")
    case False
    with "1.prems" show ?thesis by (subst connectWithRetry_loop.simps) simp
  next
    case le: True
    show ?thesis
    proof (cases r)
      case (Inr u)
      with le c i1 show ?thesis by (subst connectWithRetry_loop.simps) simp
    next
      case (Inl m)
      show ?thesis
      proof (cases "attempt < maxRetries rc")
        case True
        from "1.IH"(1) [OF le c [symmetric] Inl True] i1
        have "registryInvariant (snd (connectWithRetry_loop T rc cfg (attempt + 1)
                (min (jsMultiply delay (backoffMultiplier rc)) (maxDelayMs rc)) (Some m) (sleep delay s1)))"
          by (simp add: inv_sleep)
        with le c Inl True show ?thesis by (subst connectWithRetry_loop.simps) simp
      next
        case False
        from "1.IH"(2) [OF le c [symmetric] Inl False] i1
        have "registryInvariant (snd (connectWithRetry_loop T rc cfg (attempt + 1)
                delay (Some m) s1))"
          by simp
        with le c Inl False show ?thesis by (subst connectWithRetry_loop.simps) simp
      qed
    qed
  qed
qed

lemma inv_callToolWithRetry_loop:
  "registryInvariant s \<Longrightarrow>
     registryInvariant
       (snd (callToolWithRetry_loop T rc serverName toolName arguments attempt delay lastError s))"
proof (induction T rc serverName toolName arguments attempt delay lastError s
    rule: callToolWithRetry_loop.induct)
  case (1 T rc serverName toolName arguments attempt delay lastError s)
  obtain r s1 where c: "callTool T serverName toolName arguments s = (r, s1)"
    by (cases "callTool T serverName toolName arguments s")
  with inv_callTool [OF "1.prems", of T serverName toolName arguments]
  have i1: "registryInvariant s1" by simp
  then have i2: "registryInvariant (reconnect T serverName s1)" by (rule inv_reconnect)
  show ?case
  proof (cases "attempt \<le> maxRetries rc")
    case False
    with "1.prems" show ?thesis by (subst callToolWithRetry_loop.simps) simp
  next
    case le: True
    show ?thesis
    proof (cases "success r \<or> \<not> isRetryableError (error r)")
      case True
      with le c i1 show ?thesis by (subst callToolWithRetry_loop.simps) auto
    next
      case stop: False
      then have ns: "\<not> success r" and re: "\<not> \<not> isRetryableError (error r)" by simp_all
      show ?thesis
      proof (cases "attempt < maxRetries rc")
        case True
        from "1.IH"(1) [OF le c [symmetric] ns re refl True] i2
        have "registryInvariant (snd (callToolWithRetry_loop T rc serverName toolName arguments
                (attempt + 1) (min (jsMultiply delay (backoffMultiplier rc)) (maxDelayMs rc)) (error r)
                (sleep delay (reconnect T serverName s1))))"
          by (simp add: inv_sleep)
        with le c ns re True show ?thesis
          by (subst callToolWithRetry_loop.simps) simp
      next
        case False
        from "1.IH"(2) [OF le c [symmetric] ns re refl False] i2
        have "registryInvariant (snd (callToolWithRetry_loop T rc serverName toolName arguments
                (attempt + 1) delay (error r) (reconnect T serverName s1)))"
          by simp
        with le c ns re False show ?thesis
          by (subst callToolWithRetry_loop.simps) simp
      qed
    qed
  qed
qed

lemma inv_listAllTools_loop:
  "registryInvariant s \<Longrightarrow> registryInvariant (snd (listAllTools_loop T names acc s))"
proof (induction names arbitrary: acc s)
  case Nil
  then show ?case by simp
next
  case (Cons n names)
  obtain tools s1 where l: "listTools T n s = (tools, s1)" by (cases "listTools T n s")
  with inv_listTools [OF Cons.prems, of T n] have "registryInvariant s1" by simp
  from Cons.IH [OF this] l show ?case by simp
qed

lemma inv_fold_disconnect:
  "registryInvariant s \<Longrightarrow> registryInvariant (fold disconnect names s)"
  by (induction names arbitrary: s) (simp_all add: inv_disconnect)

lemma inv_exec: "registryInvariant s \<Longrightarrow> registryInvariant (exec T rc c s)"
  by (cases c)
    (simp_all add: inv_connect inv_connectWithRetry_loop connectWithRetry_def inv_callTool
      inv_callToolWithRetry_loop callToolWithRetry_def inv_listTools inv_listAllTools_loop
      listAllTools_def inv_disconnect inv_fold_disconnect disconnectAll_def)

lemma inv_fold_exec:
  "registryInvariant s \<Longrightarrow> registryInvariant (fold (exec T rc) calls s)"
  by (induction calls arbitrary: s) (simp_all add: inv_exec)

lemma inv_run: "registryInvariant (run T rc calls)"
  unfolding run_def by (rule inv_fold_exec) (rule inv_newAdapter)

lemma inv_lookup:
  "registryInvariant s \<Longrightarrow> map_of (connections s) n = Some c \<Longrightarrow> connected c"
  by (auto simp add: registryInvariant_def list_all_iff dest!: map_of_SomeD)

lemma inv_isConnected:
  "registryInvariant s \<Longrightarrow> isConnected s n = (n \<in> fst ` set (connections s))"
proof (cases "map_of (connections s) n")
  case None
  then have "n \<notin> fst ` set (connections s)" by (simp add: map_of_eq_None_iff)
  with None show ?thesis by (simp add: isConnected_def)
next
  case (Some c)
  assume "registryInvariant s"
  from inv_lookup [OF this Some] Some show ?thesis
    by (auto simp add: isConnected_def dest!: map_of_SomeD intro: rev_image_eqI)
qed

lemma inv_getConnectedServers:
  "registryInvariant s \<Longrightarrow> getConnectedServers s = map fst (connections s)"
proof -
  assume "registryInvariant s"
  then have "filter (\<lambda>(n, state). connected state) (connections s) = connections s"
    by (simp add: registryInvariant_def list_all_iff)
  then show ?thesis by (simp add: getConnectedServers_def)
qed

text \<open>
  Claim C9. The invariant (every entry of the registry is marked connected) holds of a new
  adapter and is kept by every operation, so it holds after any sequence of calls. In such
  a state a name is registered exactly when \<open>isConnected\<close> holds of it,
  \<open>getConnectedServers\<close> returns all the registered names, and no entry satisfies the
  guard of the \<open>is disconnected\<close> branch of \<open>callTool\<close>.
\<close>

theorem registry_all_connected:
  "registryInvariant newAdapter
   \<and> (\<forall>s call. registryInvariant s \<longrightarrow> registryInvariant (exec T rc call s))
   \<and> list_all (\<lambda>(n, c). connected c) (connections (run T rc calls))
   \<and> (\<forall>c. map_of (connections (run T rc calls)) serverName = Some c \<longrightarrow> connected c)
   \<and> isConnected (run T rc calls) serverName
       = (serverName \<in> fst ` set (connections (run T rc calls)))
   \<and> getConnectedServers (run T rc calls) = map fst (connections (run T rc calls))
   \<and> \<not> (\<exists>c. map_of (connections (run T rc calls)) serverName = Some c \<and> \<not> connected c)"
proof -
  note i = inv_run [of T rc calls]
  have 1: "\<forall>s call. registryInvariant s \<longrightarrow> registryInvariant (exec T rc call s)"
    by (simp add: inv_exec)
  have 2: "list_all (\<lambda>(n, c). connected c) (connections (run T rc calls))"
    using i by (simp add: registryInvariant_def)
  have 3: "\<forall>c. map_of (connections (run T rc calls)) serverName = Some c \<longrightarrow> connected c"
    using inv_lookup [OF i] by blast
  from inv_newAdapter 1 2 3 inv_isConnected [OF i, of serverName] inv_getConnectedServers [OF i]
  show ?thesis by blast
qed

theorem registry_all_connected_witness:
  "registryInvariant newAdapter
   \<and> registryInvariant (exec (mockCallToolRejects ''ETIMEDOUT'') (testPolicy 1)
        (Connect testConfig) newAdapter)
   \<and> map_of (connections (run (mockCallToolRejects ''ETIMEDOUT'') (testPolicy 1)
        [Connect testConfig, Connect (testConfig\<lparr>name := ''another-server''\<rparr>),
         CallToolWithRetry ''test-server'' ''test_tool'' ''{}'', Disconnect ''another-server'']))
        ''test-server''
       = Some \<lparr>client = 0, config = testConfig, connected = True, lastActivity = 1003,
               retryCount = 0\<rparr>
   \<and> connected \<lparr>client = 0, config = testConfig, connected = True, lastActivity = 1003,
               retryCount = 0\<rparr>
   \<and> isConnected (run (mockCallToolRejects ''ETIMEDOUT'') (testPolicy 1)
        [Connect testConfig, Connect (testConfig\<lparr>name := ''another-server''\<rparr>),
         CallToolWithRetry ''test-server'' ''test_tool'' ''{}'', Disconnect ''another-server''])
        ''test-server''
   \<and> getConnectedServers (run (mockCallToolRejects ''ETIMEDOUT'') (testPolicy 1)
        [Connect testConfig, Connect (testConfig\<lparr>name := ''another-server''\<rparr>),
         CallToolWithRetry ''test-server'' ''test_tool'' ''{}'', Disconnect ''another-server''])
       = [''test-server'']"
proof -
  let ?R = "run (mockCallToolRejects ''ETIMEDOUT'') (testPolicy 1)
        [Connect testConfig, Connect (testConfig\<lparr>name := ''another-server''\<rparr>),
         CallToolWithRetry ''test-server'' ''test_tool'' ''{}'', Disconnect ''another-server'']"
  have m: "map_of (connections ?R) ''test-server''
       = Some \<lparr>client = 0, config = testConfig, connected = True, lastActivity = 1003,
               retryCount = 0\<rparr>"
    by code_simp
  have k: "map fst (connections ?R) = [''test-server'']"
    by code_simp
  have "''test-server'' \<in> set (map fst (connections ?R))" unfolding k by simp
  then have mem: "''test-server'' \<in> fst ` set (connections ?R)" by simp
  note t = registry_all_connected [of "mockCallToolRejects ''ETIMEDOUT''" "testPolicy 1"
      "[Connect testConfig, Connect (testConfig\<lparr>name := ''another-server''\<rparr>),
        CallToolWithRetry ''test-server'' ''test_tool'' ''{}'', Disconnect ''another-server'']"
      "''test-server''"]
  from t have 0: "registryInvariant newAdapter" by blast
  from t 0 have 1: "registryInvariant (exec (mockCallToolRejects ''ETIMEDOUT'') (testPolicy 1)
        (Connect testConfig) newAdapter)"
    by blast
  from t m have 2: "connected \<lparr>client = 0, config = testConfig, connected = True,
      lastActivity = 1003, retryCount = 0\<rparr>"
    by blast
  from t mem have 3: "isConnected ?R ''test-server''" by blast
  from t have g: "getConnectedServers ?R = map fst (connections ?R)" by blast
  from g k have 4: "getConnectedServers ?R = [''test-server'']" by (rule trans)
  from 0 1 m 2 3 4 show ?thesis by blast
qed

section \<open>A failed connect\<close>

lemma connect_failure:
  assumes "registryInvariant s" and "connect T cfg s = (Inl e, s')"
  shows "s' = s\<lparr>handshakes := handshakes s + 1\<rparr> \<and> handshake T (handshakes s) = Some e"
proof (cases "map_of (connections s) (name cfg)")
  case None
  with assms(2) establish_Inl [of T cfg s e s'] show ?thesis by (simp add: connect_def)
next
  case (Some c)
  from inv_lookup [OF assms(1) Some] Some assms(2) show ?thesis by (simp add: connect_def)
qed


text \<open>
  Claim C6. In every state the adapter reaches from a new adapter by its own operations,
  a \<open>connect\<close> that throws has thrown what the handshake threw, and leaves the registry
  as it was: the only change to the adapter is the count of handshakes.
\<close>

theorem connect_failure_registry_unchanged:
  assumes "connect T cfg (run T rc calls) = (Inl e, s')"
  shows "connections s' = connections (run T rc calls)
       \<and> handshake T (handshakes (run T rc calls)) = Some e
       \<and> s' = (run T rc calls)\<lparr>handshakes := handshakes (run T rc calls) + 1\<rparr>"
  using connect_failure [OF inv_run assms] by simp

theorem connect_failure_registry_unchanged_witness:
  "connect (mockConnectRejectsFrom 1 ''Connection failed'')
       (testConfig\<lparr>name := ''another-server''\<rparr>)
       (run (mockConnectRejectsFrom 1 ''Connection failed'') (testPolicy 3) [Connect testConfig])
     = (Inl ''Connection failed'',
        \<lparr>connections =
           [(''test-server'',
             \<lparr>client = 0, config = testConfig, connected = True, lastActivity = 1000,
              retryCount = 0\<rparr>)],
         handshakes = 2, toolCalls = 0, listCalls = 0, closeCalls = 0, dateReads = 1,
         sleeps = []\<rparr>)
   \<and> connections (run (mockConnectRejectsFrom 1 ''Connection failed'') (testPolicy 3)
        [Connect testConfig])
       = [(''test-server'',
           \<lparr>client = 0, config = testConfig, connected = True, lastActivity = 1000,
            retryCount = 0\<rparr>)]"
proof -
  have h: "connect (mockConnectRejectsFrom 1 ''Connection failed'')
       (testConfig\<lparr>name := ''another-server''\<rparr>)
       (run (mockConnectRejectsFrom 1 ''Connection failed'') (testPolicy 3) [Connect testConfig])
     = (Inl ''Connection failed'',
        \<lparr>connections =
           [(''test-server'',
             \<lparr>client = 0, config = testConfig, connected = True, lastActivity = 1000,
              retryCount = 0\<rparr>)],
         handshakes = 2, toolCalls = 0, listCalls = 0, closeCalls = 0, dateReads = 1,
         sleeps = []\<rparr>)"
    by code_simp
  from connect_failure_registry_unchanged [OF h] h show ?thesis by simp
qed

section \<open>The configuration loader against its specification\<close>

lemma matchPlaceholder_placeholder:
  assumes "n \<noteq> []" and "list_all (\<lambda>c. c \<noteq> CHR ''}'') n"
  shows "matchPlaceholder (''${'' @ n @ ''}'' @ rest) = Some (n, rest)"
proof -
  have all: "\<And>x. x \<in> set n \<Longrightarrow> x \<noteq> CHR ''}''" using assms(2) by (simp add: list_all_iff)
  have "takeWhile (\<lambda>c. c \<noteq> CHR ''}'') (n @ CHR ''}'' # rest) = n"
    using all by (simp add: takeWhile_append2)
  moreover have "dropWhile (\<lambda>c. c \<noteq> CHR ''}'') (n @ CHR ''}'' # rest) = CHR ''}'' # rest"
    using all by (simp add: dropWhile_append2)
  ultimately show ?thesis using assms(1) by (simp add: matchPlaceholder_def)
qed

lemma matchPlaceholder_None:
  "(case s of c1 # c2 # t \<Rightarrow> c1 \<noteq> CHR ''$'' \<or> c2 \<noteq> CHR ''{'' | _ \<Rightarrow> True) \<Longrightarrow>
     matchPlaceholder s = None"
  by (auto simp add: matchPlaceholder_def split: list.splits)

lemma replacePlaceholders_literal:
  "noOpening t \<Longrightarrow> (case rest of [] \<Rightarrow> True | c # cs \<Rightarrow> c \<noteq> CHR ''{'') \<Longrightarrow>
     replacePlaceholders f (t @ rest) = t @ replacePlaceholders f rest"
proof (induction t rule: noOpening.induct)
  case (1 c1 c2 t)
  then have "matchPlaceholder ((c1 # c2 # t) @ rest) = None"
    by (intro matchPlaceholder_None) simp
  with 1 show ?case by simp
next
  case (2 c)
  then have "matchPlaceholder ([c] @ rest) = None"
    by (intro matchPlaceholder_None) (simp split: list.splits)
  with 2 show ?case by simp
next
  case 3
  then show ?case by simp
qed

lemma render_start:
  "\<not> startsWithLiteral ts \<Longrightarrow> (case render ts of [] \<Rightarrow> True | c # cs \<Rightarrow> c \<noteq> CHR ''{'')"
  by (cases ts rule: startsWithLiteral.cases) simp_all

lemma envValue_ordinary:
  "ordinaryToken processEnv inherited (Placeholder n) \<Longrightarrow>
     envValue processEnv inherited n = (case processEnv n of Some v \<Rightarrow> v | None \<Rightarrow> [])"
  by (auto simp add: envValue_def split: option.splits)

lemma replacePlaceholders_render:
  "wellFormed ts \<Longrightarrow> list_all (ordinaryToken processEnv inherited) ts \<Longrightarrow>
     replacePlaceholders (envValue processEnv inherited) (render ts)
       = substitute_spec processEnv ts"
proof (induction ts rule: wellFormed.induct)
  case 1
  then show ?case by simp
next
  case (2 t ts)
  then show ?case by (simp add: replacePlaceholders_literal render_start)
next
  case (3 n ts)
  then have m: "matchPlaceholder (''${'' @ n @ ''}'' @ render ts) = Some (n, render ts)"
    by (intro matchPlaceholder_placeholder) simp_all
  from 3 have o: "ordinaryToken processEnv inherited (Placeholder n)"
    and os: "list_all (ordinaryToken processEnv inherited) ts" and wf: "wellFormed ts"
    by simp_all
  have "replacePlaceholders (envValue processEnv inherited) (render (Placeholder n # ts))
          = envValue processEnv inherited n
              @ replacePlaceholders (envValue processEnv inherited) (render ts)"
    using m by simp
  also have "\<dots> = envValue processEnv inherited n @ substitute_spec processEnv ts"
    using "3.IH" [OF wf os] by simp
  also have "\<dots> = substitute_spec processEnv (Placeholder n # ts)"
    by (simp add: envValue_ordinary [OF o])
  finally show ?case .
qed

lemma resolveEnvVariables_rendered:
  assumes "list_all (\<lambda>(key, toks). wellFormed toks) vars"
    and "list_all (\<lambda>(key, toks). key \<noteq> ''__proto__'' \<and>
            list_all (ordinaryToken processEnv inherited) toks) vars"
  shows "resolveEnvVariables processEnv inherited
           (Some (map (\<lambda>(key, toks). (key, render toks)) vars))
         = Some (map (\<lambda>(key, toks). (key, substitute_spec processEnv toks)) vars)"
  using assms
  by (induction vars) (auto simp add: resolveEnvVariables_def replacePlaceholders_render)

lemma loadMCPConfig_rendered:
  "wellFormedDocument doc \<Longrightarrow> ordinaryDocument processEnv inherited doc \<Longrightarrow>
     loadMCPConfig processEnv inherited (renderDocument doc) = loadConfigs_spec processEnv doc"
proof (induction doc)
  case Nil
  then show ?case by (simp add: loadMCPConfig_def renderDocument_def loadConfigs_spec_def)
next
  case (Cons p doc)
  obtain n e where p: "p = (n, e)" by (cases p)
  from Cons.prems have wf: "wellFormedDocument doc" and od: "ordinaryDocument processEnv inherited doc"
    and e: "case server_env e of None \<Rightarrow> True
            | Some vars \<Rightarrow> list_all (\<lambda>(key, toks). wellFormed toks) vars"
    and o: "case server_env e of None \<Rightarrow> True
            | Some vars \<Rightarrow> list_all (\<lambda>(key, toks). key \<noteq> ''__proto__'' \<and>
                 list_all (ordinaryToken processEnv inherited) toks) vars"
    by (simp_all add: wellFormedDocument_def ordinaryDocument_def p)
  have env: "resolveEnvVariables processEnv inherited (server_env (renderEntry e))
          = map_option (map (\<lambda>(key, toks). (key, substitute_spec processEnv toks))) (server_env e)"
  proof (cases "server_env e")
    case None
    then show ?thesis by (simp add: resolveEnvVariables_def renderEntry_def)
  next
    case (Some vars)
    with e o resolveEnvVariables_rendered [of vars processEnv inherited]
    show ?thesis by (simp add: renderEntry_def)
  qed
  from Cons.IH [OF wf od] env show ?case
    by (simp add: loadMCPConfig_def renderDocument_def loadConfigs_spec_def p renderEntry_def)
qed

lemma loadMCPConfig_names:
  "map name (loadMCPConfig processEnv inherited mcpServers) =
     map fst (filter (\<lambda>(n, server). disabled server \<noteq> Some True) mcpServers)"
  by (induction mcpServers) (auto simp add: loadMCPConfig_def)

lemma replacePlaceholders_plain:
  "noOpening v \<Longrightarrow> replacePlaceholders f v = v"
  using replacePlaceholders_literal [of v "[]" f] by simp

lemma loadMCPConfig_disabled:
  assumes "distinct (map fst mcpServers)" and "(n, server) \<in> set mcpServers"
    and "disabled server = Some True"
  shows "n \<notin> set (map name (loadMCPConfig processEnv inherited mcpServers))"
proof
  assume "n \<in> set (map name (loadMCPConfig processEnv inherited mcpServers))"
  then have "n \<in> set (map fst (filter (\<lambda>(n, server). disabled server \<noteq> Some True) mcpServers))"
    by (simp only: loadMCPConfig_names)
  then obtain server' where 1: "(n, server') \<in> set mcpServers"
    and 2: "disabled server' \<noteq> Some True"
    by auto
  from assms(1) 1 assms(2) have "server' = server" by (rule eq_key_imp_eq_value)
  with 2 assms(3) show False by simp
qed

text \<open>
  On an ordinary configuration whose \<open>env\<close> values are well-formed sequences of literal
  text and placeholders, \<open>loadMCPConfig\<close> returns what the specification describes: the
  entries not marked disabled, in order, each \<open>env\<close> value with every placeholder
  \<open>${NAME}\<close> replaced by the value of \<open>NAME\<close> in the process environment, or by the
  empty string when it is unset. On any configuration, the names returned are those of the
  entries not marked disabled, a disabled entry's name is not returned, and a value without
  \<open>${\<close> is resolved to itself.
\<close>

lemma loadMCPConfig_ordinary:
  assumes "wellFormedDocument doc" and "ordinaryDocument processEnv inherited doc"
  shows "loadMCPConfig processEnv inherited (renderDocument doc) = loadConfigs_spec processEnv doc
       \<and> map name (loadMCPConfig processEnv inherited mcpServers)
           = map fst (filter (\<lambda>(n, server). disabled server \<noteq> Some True) mcpServers)
       \<and> (\<forall>n server. distinct (map fst mcpServers) \<and> (n, server) \<in> set mcpServers
              \<and> disabled server = Some True \<longrightarrow>
            n \<notin> set (map name (loadMCPConfig processEnv inherited mcpServers)))
       \<and> (\<forall>v. noOpening v \<longrightarrow> replacePlaceholders (envValue processEnv inherited) v = v)"
  using loadMCPConfig_rendered [OF assms] loadMCPConfig_names loadMCPConfig_disabled
    replacePlaceholders_plain
  by blast

text \<open>The configuration of the loader's tests is ordinary, with and without \<open>API_KEY\<close> set.\<close>

lemma loadMCPConfig_testDocument:
  "wellFormedDocument testDocument
   \<and> ordinaryDocument testEnvironment inheritedToString testDocument
   \<and> ordinaryDocument Map.empty inheritedToString testDocument
   \<and> loadMCPConfig testEnvironment inheritedToString (renderDocument testDocument)
       = [\<lparr>name = ''test-server'', command = ''node'', args = [''test.js''],
           env = Some [(''API_KEY'', ''env-api-key'')]\<rparr>]
   \<and> loadMCPConfig Map.empty inheritedToString (renderDocument testDocument)
       = [\<lparr>name = ''test-server'', command = ''node'', args = [''test.js''],
           env = Some [(''API_KEY'', [])]\<rparr>]
   \<and> loadConfigs_spec testEnvironment testDocument
       = [\<lparr>name = ''test-server'', command = ''node'', args = [''test.js''],
           env = Some [(''API_KEY'', ''env-api-key'')]\<rparr>]
   \<and> loadConfigs_spec Map.empty testDocument
       = [\<lparr>name = ''test-server'', command = ''node'', args = [''test.js''],
           env = Some [(''API_KEY'', [])]\<rparr>]"
  by code_simp

text \<open>
  Claim C8 at a failing input. The configuration has the \<open>env\<close> value \<open>${toString}\<close> and
  an \<open>env\<close> entry with the key \<open>__proto__\<close>; no variable is set. The claim, and the
  comment in \<open>resolveEnvVariables\<close> (\<open>Replace ${VAR_NAME} with actual environment
  variable\<close>), have \<open>${toString}\<close> resolved to the empty string and the other value
  passed on unchanged, as the loader of the specification does. \<open>loadMCPConfig\<close> resolves
  \<open>${toString}\<close> to the text of the function that \<open>process.env\<close> inherits, and the
  entry with the key \<open>__proto__\<close> is not in its result.
\<close>

theorem loadMCPConfig_inherited_toString:
  "wellFormedDocument quirkDocument
   \<and> loadMCPConfig Map.empty inheritedToString (renderDocument quirkDocument)
       = [\<lparr>name = ''test-server'', command = ''node'', args = [''test.js''],
           env = Some [(''API_KEY'', ''function toString() { [native code] }'')]\<rparr>]
   \<and> loadConfigs_spec Map.empty quirkDocument
       = [\<lparr>name = ''test-server'', command = ''node'', args = [''test.js''],
           env = Some [(''API_KEY'', []), (''__proto__'', ''x'')]\<rparr>]"
  by code_simp

section \<open>The message for an unregistered server\<close>

lemma occurrence_split:
  assumes "xs @ sp # ys = a @ w @ b" and "sp \<notin> set w"
  shows "(\<exists>b'. xs = a @ w @ b' \<and> b = b' @ sp # ys) \<or> (\<exists>a'. ys = a' @ w @ b \<and> a = xs @ sp # a')"
proof -
  from assms(1) consider us where "xs = a @ us" "us @ sp # ys = w @ b"
    | us where "xs @ us = a" "sp # ys = us @ w @ b"
    by (auto simp add: append_eq_append_conv2)
  then show ?thesis
  proof cases
    case 1
    from 1(2) consider vs where "us = w @ vs" "vs @ sp # ys = b"
      | vs where "us @ vs = w" "sp # ys = vs @ b"
      by (auto simp add: append_eq_append_conv2)
    then show ?thesis
    proof cases
      case 1
      with \<open>xs = a @ us\<close> show ?thesis by auto
    next
      case 2
      have "vs = []"
      proof (cases vs)
        case Nil
        then show ?thesis .
      next
        case (Cons v vs')
        with 2 have "sp \<in> set w" by auto
        with assms(2) show ?thesis by simp
      qed
      with 2 \<open>xs = a @ us\<close> show ?thesis by auto
    qed
  next
    case 2
    show ?thesis
    proof (cases us)
      case Nil
      with 2 have a: "a = xs" and e: "sp # ys = w @ b" by simp_all
      have "w = []"
      proof (cases w)
        case Nil
        then show ?thesis .
      next
        case (Cons c w')
        with e have "sp \<in> set w" by auto
        with assms(2) show ?thesis by simp
      qed
      with a e show ?thesis by auto
    next
      case (Cons u us')
      with 2 show ?thesis by auto
    qed
  qed
qed

lemma fold_case_space: "fold_case (a @ CHR '' '' # b) = fold_case a @ CHR '' '' # fold_case b"
proof -
  have "canonicalize (CHR '' '') = CHR '' ''" by code_simp
  then show ?thesis by (simp add: fold_case_def)
qed

lemma mentions_between_spaces:
  assumes sp: "CHR '' '' \<notin> set (fold_case w)"
    and m: "mentions w (a @ CHR '' '' # n @ CHR '' '' # b)"
  shows "mentions w a \<or> mentions w n \<or> mentions w b"
proof -
  from m obtain pre post where
    "fold_case a @ CHR '' '' # (fold_case n @ CHR '' '' # fold_case b) = pre @ fold_case w @ post"
    unfolding mentions_def by (auto simp add: fold_case_space)
  from occurrence_split [OF this sp]
  consider b' where "fold_case a = pre @ fold_case w @ b'"
    | a' where "fold_case n @ CHR '' '' # fold_case b = a' @ fold_case w @ post"
    by blast
  then show ?thesis
  proof cases
    case 1
    then show ?thesis unfolding mentions_def by blast
  next
    case 2
    from occurrence_split [OF 2 sp] show ?thesis unfolding mentions_def by blast
  qed
qed

lemma mentions_then_between_spaces:
  assumes sp1: "CHR '' '' \<notin> set (fold_case w1)" and sp2: "CHR '' '' \<notin> set (fold_case w2)"
    and m: "mentions_then w1 w2 (a @ CHR '' '' # n @ CHR '' '' # b)"
    and na: "\<not> mentions w1 a" and nb1: "\<not> mentions w1 b" and nb2: "\<not> mentions w2 b"
  shows "mentions_then w1 w2 n"
proof -
  from m obtain pre mid post where
    f: "fold_case a @ CHR '' '' # (fold_case n @ CHR '' '' # fold_case b)
          = pre @ fold_case w1 @ (mid @ fold_case w2 @ post)"
    and mid: "list_all (\<lambda>c. \<not> lineTerminator c) mid"
    unfolding mentions_then_def by (auto simp add: fold_case_space)
  from occurrence_split [OF f sp1] na
  obtain a' where 1: "fold_case n @ CHR '' '' # fold_case b
                        = a' @ fold_case w1 @ (mid @ fold_case w2 @ post)"
    unfolding mentions_def by blast
  from occurrence_split [OF 1 sp1] nb1
  obtain b' where 2: "fold_case n = a' @ fold_case w1 @ b'"
    and 3: "b' @ CHR '' '' # fold_case b = mid @ fold_case w2 @ post"
    unfolding mentions_def by auto
  from occurrence_split [OF 3 sp2] nb2
  obtain b'' where "b' = mid @ fold_case w2 @ b''"
    unfolding mentions_def by blast
  with 2 have "fold_case n = a' @ fold_case w1 @ mid @ fold_case w2 @ b''" by simp
  with mid show ?thesis unfolding mentions_then_def by blast
qed

lemma mentions_inside: "mentions w n \<Longrightarrow> mentions w (a @ n @ b)"
proof -
  assume "mentions w n"
  then obtain pre post where "fold_case n = pre @ fold_case w @ post"
    unfolding mentions_def by blast
  then have "fold_case (a @ n @ b) = (fold_case a @ pre) @ fold_case w @ (post @ fold_case b)"
    by (simp add: fold_case_append)
  then show ?thesis unfolding mentions_def by blast
qed

lemma mentions_then_inside: "mentions_then w1 w2 n \<Longrightarrow> mentions_then w1 w2 (a @ n @ b)"
proof -
  assume "mentions_then w1 w2 n"
  then obtain pre mid post where "fold_case n = pre @ fold_case w1 @ mid @ fold_case w2 @ post"
    and mid: "list_all (\<lambda>c. \<not> lineTerminator c) mid"
    unfolding mentions_then_def by blast
  then have "fold_case (a @ n @ b)
      = (fold_case a @ pre) @ fold_case w1 @ mid @ fold_case w2 @ (post @ fold_case b)"
    by (simp add: fold_case_append)
  with mid show ?thesis unfolding mentions_then_def by blast
qed

lemma words_no_space: "list_all (\<lambda>w. CHR '' '' \<notin> set (fold_case w)) retryableWords"
  by code_simp

lemma words_not_in_Server: "list_all (\<lambda>w. \<not> test (lit w) ''Server'') retryableWords"
  by code_simp

lemma words_not_in_not_connected:
  "list_all (\<lambda>w. \<not> test (lit w) ''not connected'') retryableWords"
  by code_simp

lemma words_not_empty: "list_all (\<lambda>w. \<not> test (lit w) []) retryableWords"
  by code_simp

lemma word_facts:
  assumes "w \<in> set retryableWords"
  shows "CHR '' '' \<notin> set (fold_case w)" and "\<not> mentions w ''Server''"
    and "\<not> mentions w ''not connected''" and "\<not> mentions w []"
proof -
  from words_no_space assms show "CHR '' '' \<notin> set (fold_case w)"
    unfolding list_all_iff by blast
  from words_not_in_Server assms show "\<not> mentions w ''Server''"
    unfolding list_all_iff test_lit by blast
  from words_not_in_not_connected assms show "\<not> mentions w ''not connected''"
    unfolding list_all_iff test_lit by blast
  from words_not_empty assms show "\<not> mentions w []"
    unfolding list_all_iff test_lit by blast
qed

lemma message_shape:
  "''Server '' @ n @ '' not connected'' = ''Server'' @ CHR '' '' # n @ CHR '' '' # ''not connected''"
  by simp

lemma mentions_in_message:
  assumes "w \<in> set retryableWords"
  shows "mentions w (''Server '' @ n @ '' not connected'') = mentions w n"
proof
  assume "mentions w (''Server '' @ n @ '' not connected'')"
  then have "mentions w (''Server'' @ CHR '' '' # n @ CHR '' '' # ''not connected'')"
    by (simp only: message_shape)
  from mentions_between_spaces [OF word_facts(1) [OF assms] this] word_facts(2,3) [OF assms]
  show "mentions w n" by blast
next
  assume "mentions w n"
  then show "mentions w (''Server '' @ n @ '' not connected'')" by (rule mentions_inside)
qed

lemma mentions_then_in_message:
  "mentions_then ''connection'' ''refused'' (''Server '' @ n @ '' not connected'')
     = mentions_then ''connection'' ''refused'' n"
proof
  have c: "''connection'' \<in> set retryableWords" and r: "''refused'' \<in> set retryableWords"
    by (simp_all add: retryableWords_def)
  assume "mentions_then ''connection'' ''refused'' (''Server '' @ n @ '' not connected'')"
  then have "mentions_then ''connection'' ''refused''
               (''Server'' @ CHR '' '' # n @ CHR '' '' # ''not connected'')"
    by (simp only: message_shape)
  from mentions_then_between_spaces [OF word_facts(1) [OF c] word_facts(1) [OF r] this
      word_facts(2) [OF c] word_facts(3) [OF c] word_facts(3) [OF r]]
  show "mentions_then ''connection'' ''refused'' n" .
next
  assume "mentions_then ''connection'' ''refused'' n"
  then show "mentions_then ''connection'' ''refused'' (''Server '' @ n @ '' not connected'')"
    by (rule mentions_then_inside)
qed

lemma retryableWords_members:
  "''timeout'' \<in> set retryableWords" "''ECONNRESET'' \<in> set retryableWords"
  "''ECONNREFUSED'' \<in> set retryableWords" "''ETIMEDOUT'' \<in> set retryableWords"
  "''network'' \<in> set retryableWords" "''unavailable'' \<in> set retryableWords"
  by (simp_all add: retryableWords_def)

lemma mentionsRetryable_message:
  "mentionsRetryable (''Server '' @ n @ '' not connected'') = mentionsRetryable n"
  unfolding mentionsRetryable_def
  by (simp only: mentions_then_in_message retryableWords_members [THEN mentions_in_message])

lemma mentionsRetryable_empty: "\<not> mentionsRetryable []"
proof -
  have "\<not> test (lit ''connection'' @ DotStar # lit ''refused'') []" by code_simp
  then have t: "\<not> mentions_then ''connection'' ''refused'' []"
    unfolding test_lit_DotStar_lit .
  from t retryableWords_members [THEN word_facts(4)] show ?thesis
    unfolding mentionsRetryable_def by blast
qed

lemma notConnected_retryable:
  "isRetryableError (Some (''Server '' @ n @ '' not connected'')) = isRetryableError (Some n)"
proof -
  have "isRetryableError (Some (''Server '' @ n @ '' not connected'')) = mentionsRetryable n"
    by (simp only: isRetryableError_mentions mentionsRetryable_message) simp
  moreover have "isRetryableError (Some n) = mentionsRetryable n"
    using mentionsRetryable_empty by (cases n) (simp_all add: isRetryableError_mentions)
  ultimately show ?thesis by simp
qed

text \<open>
  Claim C10, as the code has it. The message \<open>Server <name> not connected\<close> is classified
  as the name itself is classified. For a retry policy with a non-negative \<open>maxRetries\<close>
  and an unregistered server whose name matches no retryable pattern, the message is not
  retryable, and \<open>callToolWithRetry\<close> returns that failure as it is and leaves the adapter
  as it was: one attempt, no call to the transport, no reconnection, no sleep.
\<close>

theorem callToolWithRetry_unregistered:
  "isRetryableError (Some (''Server '' @ serverName @ '' not connected''))
     = isRetryableError (Some serverName)
   \<and> (0 \<le> maxRetries rc \<and> map_of (connections s) serverName = None
        \<and> \<not> isRetryableError (Some serverName) \<longrightarrow>
      \<not> isRetryableError (Some (''Server '' @ serverName @ '' not connected''))
      \<and> callToolWithRetry T rc serverName toolName arguments s
           = (failure (''Server '' @ serverName @ '' not connected''), s))"
proof (intro conjI impI)
  show "isRetryableError (Some (''Server '' @ serverName @ '' not connected''))
          = isRetryableError (Some serverName)"
    by (rule notConnected_retryable)
next
  assume h: "0 \<le> maxRetries rc \<and> map_of (connections s) serverName = None
        \<and> \<not> isRetryableError (Some serverName)"
  then have p: "0 \<le> maxRetries rc" and a: "map_of (connections s) serverName = None"
    and b: "\<not> isRetryableError (Some serverName)"
    by simp_all
  show n: "\<not> isRetryableError (Some (''Server '' @ serverName @ '' not connected''))"
    unfolding notConnected_retryable by (rule b)
  have c: "callTool T serverName toolName arguments s
             = (failure (''Server '' @ serverName @ '' not connected''), s)"
    using a by (rule callTool_absent)
  show "callToolWithRetry T rc serverName toolName arguments s
          = (failure (''Server '' @ serverName @ '' not connected''), s)"
    using n by (intro callToolWithRetry_first_failure [OF p c]) (simp_all add: failure_def)
qed

theorem callToolWithRetry_unregistered_witness:
  "0 \<le> maxRetries (testPolicy 3)
   \<and> map_of (connections newAdapter) ''non-existent'' = None
   \<and> \<not> isRetryableError (Some ''non-existent'')
   \<and> \<not> isRetryableError (Some (''Server '' @ ''non-existent'' @ '' not connected''))
   \<and> callToolWithRetry (mockCallToolResolves ''result'') (testPolicy 3) ''non-existent''
        ''test_tool'' ''{}'' newAdapter
       = (failure (''Server '' @ ''non-existent'' @ '' not connected''), newAdapter)
   \<and> isRetryableError (Some ''network'')
   \<and> isRetryableError (Some (''Server '' @ ''network'' @ '' not connected''))"
proof -
  have p: "0 \<le> maxRetries (testPolicy 3)" by (simp add: testPolicy_def)
  have a: "map_of (connections newAdapter) ''non-existent'' = None" by code_simp
  have b: "\<not> isRetryableError (Some ''non-existent'')" by code_simp
  have r: "isRetryableError (Some ''network'')" by code_simp
  from callToolWithRetry_unregistered [of "''network''"] r
  have r': "isRetryableError (Some (''Server '' @ ''network'' @ '' not connected''))"
    by blast
  from callToolWithRetry_unregistered [of "''non-existent''" "testPolicy 3" newAdapter
      "mockCallToolResolves ''result''" "''test_tool''" "''{}''"] p a b r r'
  show ?thesis by blast
qed

text \<open>
  Claim C10 as stated fails for a server named \<open>network\<close>: the message
  \<open>Server network not connected\<close> matches \<open>/network/i\<close>, so it is retryable, and
  \<open>callToolWithRetry\<close> on the unregistered name makes every attempt of the policy, sleeps
  between them and returns the aggregated message. It fails also for a policy with a
  negative \<open>maxRetries\<close>: no attempt is made, and what is returned is the aggregated
  message, not the failure of an attempt.
\<close>

theorem unregistered_network_counterexample:
  "map_of (connections newAdapter) ''network'' = None
   \<and> isRetryableError (Some ''Server network not connected'')
   \<and> callToolWithRetry (mockCallToolResolves ''result'') (testPolicy 1) ''network''
        ''test_tool'' ''{}'' newAdapter
       = (failure ''Failed after 2 attempts: Server network not connected'',
          newAdapter\<lparr>sleeps := [10]\<rparr>)
   \<and> map_of (connections newAdapter) ''non-existent'' = None
   \<and> \<not> isRetryableError (Some ''Server non-existent not connected'')
   \<and> callToolWithRetry (mockCallToolResolves ''result'') (testPolicy (- 1)) ''non-existent''
        ''test_tool'' ''{}'' newAdapter
       = (failure ''Failed after 0 attempts: undefined'', newAdapter)"
  by code_simp

end
